theory Spec2Isabelle
  imports Complex_Main "HOL-Library.Char_ord" "HOL-Library.List_Lexorder"
    "HOL-Library.Product_Lexorder"
begin

section \<open>Calendar dates\<close>

text \<open>
  The ledger columns \<open>Fecha\<close> and \<open>Fecha de cobro\<close> are parsed by \<open>pd.to_datetime\<close>
  into timestamps. The model keeps the calendar fields of a timestamp and takes the
  ledger's dates to carry no time of day (the spec's data model calls them dates).
  A timestamp is compared and subtracted through its day number: \<open>ordinal\<close> is the
  proleptic Gregorian day count that \<open>date.toordinal\<close> computes, which orders dates
  and measures their distance in days as the timestamp's internal value does.
\<close>

record date =
  year :: int
  month :: int
  day :: int

definition mk_date :: "int \<Rightarrow> int \<Rightarrow> int \<Rightarrow> date" where
  "mk_date y m d = \<lparr>year = y, month = m, day = d\<rparr>"

definition is_leap :: "int \<Rightarrow> bool" where
  "is_leap y = (y mod 4 = 0 \<and> (y mod 100 \<noteq> 0 \<or> y mod 400 = 0))"

definition days_before_year :: "int \<Rightarrow> int" where
  "days_before_year y = (y - 1) * 365 + (y - 1) div 4 - (y - 1) div 100 + (y - 1) div 400"

definition days_in_month :: "int \<Rightarrow> int \<Rightarrow> int" where
  "days_in_month y m =
     (if m = 2 then (if is_leap y then 29 else 28)
      else if m = 4 \<or> m = 6 \<or> m = 9 \<or> m = 11 then 30 else 31)"

definition days_before_month :: "int \<Rightarrow> int \<Rightarrow> int" where
  "days_before_month y m =
     [0, 31, 59, 90, 120, 151, 181, 212, 243, 273, 304, 334] ! nat (m - 1)
       + (if 2 < m \<and> is_leap y then 1 else 0)"

definition ordinal :: "date \<Rightarrow> int" where
  "ordinal d = days_before_year (year d) + days_before_month (year d) (month d) + day d"


text \<open>\<open>ts.replace(day=1)\<close>.\<close>

definition replace_day_1 :: "date \<Rightarrow> date" where
  "replace_day_1 d = d\<lparr>day := 1\<rparr>"

text \<open>
  Months are counted from year 0: \<open>month_index\<close> numbers the month a date lies in and
  \<open>month_start\<close> is the first day of the month with a given number.
\<close>

definition month_index :: "date \<Rightarrow> int" where
  "month_index d = year d * 12 + (month d - 1)"

definition month_start :: "int \<Rightarrow> date" where
  "month_start i = \<lparr>year = i div 12, month = i mod 12 + 1, day = 1\<rparr>"

text \<open>
  \<open>ts + pd.DateOffset(months=k)\<close>: the month moves by \<open>k\<close>, the day is clipped to the
  length of the target month.
\<close>

definition add_months :: "date \<Rightarrow> int \<Rightarrow> date" where
  "add_months d k =
     (let i = month_index d + k; y = i div 12; m = i mod 12 + 1
      in \<lparr>year = y, month = m, day = min (day d) (days_in_month y m)\<rparr>)"

text \<open>
  \<open>pd.date_range(start=start_date, end=current_date, freq='MS')\<close>, called with a
  \<open>start_date\<close> that is a month start: every month start from the month of
  \<open>start_date\<close> through the month of \<open>current_date\<close>. (\<open>current_date\<close> may carry the
  time of day of \<open>now\<close>; the first day of its month at midnight is not after it, so the
  time of day does not change the range.)
\<close>

function months_from :: "int \<Rightarrow> int \<Rightarrow> date list" where
  "months_from i j = (if i \<le> j then month_start i # months_from (i + 1) j else [])"
  by pat_completeness auto
termination
  by (relation "measure (\<lambda>(i, j). nat (j + 1 - i))") auto

declare months_from.simps [simp del]

definition date_range :: "date \<Rightarrow> date \<Rightarrow> date list" where
  "date_range start_date current_date =
     months_from (month_index start_date) (month_index current_date)"

section \<open>The ledger and the gold layer\<close>

text \<open>
  One row of the consolidated ledger \<open>df_consolidado\<close> after cleaning: the columns
  that \<open>main\<close> reads. A date that \<open>pd.to_datetime(errors='coerce')\<close> could not parse is
  \<open>NaT\<close>, here \<open>None\<close>. \<open>Total\<close> is the cleaned amount; the model computes with exact
  rationals where the script computes with floats.
\<close>

record invoice =
  Cliente :: string
  Num :: string
  Fecha :: "date option"
  Fecha_de_cobro :: "date option"
  Total :: rat

text \<open>The eight values of the column \<open>Concepto\<close>, in the order a snapshot appends them.\<close>

datatype concepto =
    Facturacion_Mensual
  | Deuda_0_3_Meses
  | Deuda_3_6_Meses
  | Deuda_6_12_Meses
  | Deuda_gt_12_Meses
  | Alerta_Paso_3_Meses
  | Pagos_Deuda_Post_Inicio
  | Pagos_Alerta_Post_Inicio

text \<open>The text of each concept, which \<open>sort_values\<close> compares character by character.\<close>

fun concepto_str :: "concepto \<Rightarrow> string" where
  "concepto_str Facturacion_Mensual = ''Facturaci'' @ [CHR 0xF3] @ ''n Mensual''"
| "concepto_str Deuda_0_3_Meses = ''Deuda 0-3 Meses''"
| "concepto_str Deuda_3_6_Meses = ''Deuda 3-6 Meses''"
| "concepto_str Deuda_6_12_Meses = ''Deuda 6-12 Meses''"
| "concepto_str Deuda_gt_12_Meses = ''Deuda > 12 Meses''"
| "concepto_str Alerta_Paso_3_Meses = ''Alerta: Pas'' @ [CHR 0xF3] @ '' 3 Meses''"
| "concepto_str Pagos_Deuda_Post_Inicio = ''Pagos Deuda Post-Inicio''"
| "concepto_str Pagos_Alerta_Post_Inicio = ''Pagos Alerta Post-Inicio''"

text \<open>
  A dictionary appended to \<open>gold_rows\<close>. Its key \<open>'Cliente'\<close> is the field
  \<open>Cliente_Reporte\<close> here, since \<open>Cliente\<close> already names the ledger column.
\<close>

record gold_row =
  Fecha_Reporte :: date
  Cliente_Reporte :: string
  Concepto :: concepto
  Monto :: rat
  Es_Mes_Actual :: bool
  Numero_Facturas :: nat
  Lista_Facturas :: string

text \<open>A row of \<open>df_gold\<close> after the variance pass.\<close>

record gold_row_var = gold_row +
  Variacion_Mes_Anterior :: rat

text \<open>\<open>sep.join(xs)\<close>.\<close>

fun join :: "string \<Rightarrow> string list \<Rightarrow> string" where
  "join sep [] = []"
| "join sep [x] = x"
| "join sep (x # y # ys) = x @ sep @ join sep (y # ys)"

text \<open>\<open>Series.unique()\<close>: the distinct values in order of first appearance.\<close>

definition unique :: "'a list \<Rightarrow> 'a list" where
  "unique xs = foldl (\<lambda>seen x. if x \<in> set seen then seen else seen @ [x]) [] xs"

text \<open>The values of a date column that are not \<open>NaT\<close>; \<open>min()\<close> and \<open>max()\<close> skip the rest.\<close>

fun valid_dates :: "date option list \<Rightarrow> date list" where
  "valid_dates [] = []"
| "valid_dates (None # ds) = valid_dates ds"
| "valid_dates (Some d # ds) = d # valid_dates ds"

definition ts_min :: "date \<Rightarrow> date \<Rightarrow> date" where
  "ts_min a b = (if ordinal b < ordinal a then b else a)"

text \<open>Python's \<open>max(a, b)\<close>: the first argument unless the second is greater.\<close>

definition ts_max :: "date \<Rightarrow> date \<Rightarrow> date" where
  "ts_max a b = (if ordinal a < ordinal b then b else a)"

subsection \<open>The loop over a client's invoices\<close>

text \<open>The seven sums and seven lists that the client loop resets for every snapshot.\<close>

record accumulators =
  deuda_lt_3_sum :: rat
  deuda_3_6_sum :: rat
  deuda_6_12_sum :: rat
  deuda_gt_12_sum :: rat
  crossed_3_months_sum :: rat
  paid_debt_post_start_sum :: rat
  paid_alert_post_start_sum :: rat
  list_lt_3 :: "string list"
  list_3_6 :: "string list"
  list_6_12 :: "string list"
  list_gt_12 :: "string list"
  list_crossed :: "string list"
  list_paid_post_start :: "string list"
  list_paid_alert :: "string list"

definition init_accumulators :: accumulators where
  "init_accumulators =
     \<lparr>deuda_lt_3_sum = 0, deuda_3_6_sum = 0, deuda_6_12_sum = 0, deuda_gt_12_sum = 0,
      crossed_3_months_sum = 0, paid_debt_post_start_sum = 0, paid_alert_post_start_sum = 0,
      list_lt_3 = [], list_3_6 = [], list_6_12 = [], list_gt_12 = [], list_crossed = [],
      list_paid_post_start = [], list_paid_alert = []\<rparr>"

text \<open>\<open>pd.isna(payment_date) or (payment_date > snapshot_date)\<close>.\<close>

definition is_unpaid :: "date \<Rightarrow> date option \<Rightarrow> bool" where
  "is_unpaid snapshot_date payment_date =
     (case payment_date of None \<Rightarrow> True
      | Some p \<Rightarrow> ordinal snapshot_date < ordinal p)"

text \<open>\<open>(snapshot_date - invoice_date).days\<close>.\<close>

definition days_between :: "date \<Rightarrow> date \<Rightarrow> int" where
  "days_between snapshot_date invoice_date = ordinal snapshot_date - ordinal invoice_date"

text \<open>
  \<open>days / 30.44\<close>. The script divides in floating point and compares the quotient with
  3, 6 and 12. For a whole number of days the exact quotient is at least 0.0105 away
  from each of these bounds (the bounds in days are 91.32, 182.64 and 365.28), far more
  than the rounding error of the division, so the comparisons come out as they do on the
  exact quotient used here.
\<close>

definition months_of_days :: "int \<Rightarrow> rat" where
  "months_of_days days = of_int days / (3044 / 100)"

text \<open>The test \<open>(months_overdue_prev < 3) and (months_overdue >= 3)\<close>.\<close>

definition crossed_3 :: "rat \<Rightarrow> rat \<Rightarrow> bool" where
  "crossed_3 months_overdue_prev months_overdue =
     (months_overdue_prev < 3 \<and> 3 \<le> months_overdue)"

text \<open>The body of \<open>for _, invoice in client_invoices.iterrows()\<close>.\<close>

definition process_invoice :: "date \<Rightarrow> invoice \<Rightarrow> accumulators \<Rightarrow> accumulators" where
  "process_invoice snapshot_date invoice acc =
     (let payment_date = Fecha_de_cobro invoice;
          total = Total invoice;
          inv_num = Num invoice
      in case Fecha invoice of
           None \<Rightarrow> acc
         | Some invoice_date \<Rightarrow>
             if is_unpaid snapshot_date payment_date then
               (let days_overdue = days_between snapshot_date invoice_date;
                    months_overdue = months_of_days days_overdue
                in if 0 < days_overdue then
                     (let acc1 =
                            (if months_overdue < 3 then
                               acc\<lparr>deuda_lt_3_sum := deuda_lt_3_sum acc + total,
                                    list_lt_3 := list_lt_3 acc @ [inv_num]\<rparr>
                             else if 3 \<le> months_overdue \<and> months_overdue < 6 then
                               acc\<lparr>deuda_3_6_sum := deuda_3_6_sum acc + total,
                                    list_3_6 := list_3_6 acc @ [inv_num]\<rparr>
                             else if 6 \<le> months_overdue \<and> months_overdue < 12 then
                               acc\<lparr>deuda_6_12_sum := deuda_6_12_sum acc + total,
                                    list_6_12 := list_6_12 acc @ [inv_num]\<rparr>
                             else if 12 \<le> months_overdue then
                               acc\<lparr>deuda_gt_12_sum := deuda_gt_12_sum acc + total,
                                    list_gt_12 := list_gt_12 acc @ [inv_num]\<rparr>
                             else acc);
                          prev_month_date = add_months snapshot_date (- 1);
                          days_overdue_prev = days_between prev_month_date invoice_date;
                          months_overdue_prev = months_of_days days_overdue_prev;
                          acc2 =
                            (if crossed_3 months_overdue_prev months_overdue then
                               acc1\<lparr>crossed_3_months_sum := crossed_3_months_sum acc1 + total,
                                     list_crossed := list_crossed acc1 @ [inv_num]\<rparr>
                             else acc1)
                      in if payment_date \<noteq> None then
                           (let acc3 =
                                  acc2\<lparr>paid_debt_post_start_sum :=
                                          paid_debt_post_start_sum acc2 + total,
                                        list_paid_post_start :=
                                          list_paid_post_start acc2 @ [inv_num]\<rparr>
                            in if crossed_3 months_overdue_prev months_overdue then
                                 acc3\<lparr>paid_alert_post_start_sum :=
                                         paid_alert_post_start_sum acc3 + total,
                                       list_paid_alert := list_paid_alert acc3 @ [inv_num]\<rparr>
                               else acc3)
                         else acc2)
                   else acc)
             else acc)"

definition invoice_loop :: "date \<Rightarrow> invoice list \<Rightarrow> accumulators" where
  "invoice_loop snapshot_date client_invoices =
     foldl (\<lambda>acc invoice. process_invoice snapshot_date invoice acc)
       init_accumulators client_invoices"

subsection \<open>The rows of one snapshot and client\<close>

definition row :: "date \<Rightarrow> string \<Rightarrow> concepto \<Rightarrow> rat \<Rightarrow> bool \<Rightarrow> string list \<Rightarrow> gold_row" where
  "row snapshot_date client c monto is_current_month nums =
     \<lparr>Fecha_Reporte = snapshot_date, Cliente_Reporte = client, Concepto = c, Monto = monto,
      Es_Mes_Actual = is_current_month, Numero_Facturas = length nums,
      Lista_Facturas = join '', '' nums\<rparr>"

definition is_current_month :: "date \<Rightarrow> date \<Rightarrow> bool" where
  "is_current_month now snapshot_date =
     (year snapshot_date = year now \<and> month snapshot_date = month now)"

text \<open>
  \<open>(Fecha.dt.year == snapshot_date.year) & (Fecha.dt.month == snapshot_date.month)\<close>;
  the comparison is false on \<open>NaT\<close>.
\<close>

definition in_month :: "date \<Rightarrow> invoice \<Rightarrow> bool" where
  "in_month snapshot_date invoice =
     (case Fecha invoice of None \<Rightarrow> False
      | Some d \<Rightarrow> year d = year snapshot_date \<and> month d = month snapshot_date)"

text \<open>\<open>Fecha <= snapshot_date\<close>, false on \<open>NaT\<close>.\<close>

definition dated_until :: "date \<Rightarrow> invoice \<Rightarrow> bool" where
  "dated_until snapshot_date invoice =
     (case Fecha invoice of None \<Rightarrow> False
      | Some d \<Rightarrow> ordinal d \<le> ordinal snapshot_date)"

text \<open>
  A run of statements \<open>if guard: gold_rows.append(row)\<close>, one pair for each: the rows
  whose guard holds, in the order of the statements.
\<close>

definition append_if :: "(bool \<times> gold_row) list \<Rightarrow> gold_row list" where
  "append_if guarded = map snd (filter fst guarded)"

text \<open>The body of \<open>for client in clients\<close>: up to eight rows, in the order appended.\<close>

definition client_rows :: "invoice list \<Rightarrow> date \<Rightarrow> date \<Rightarrow> string \<Rightarrow> gold_row list" where
  "client_rows df_consolidado now snapshot_date client =
     (let cur = is_current_month now snapshot_date;
          billing_in_month = filter (in_month snapshot_date) df_consolidado;
          relevant_invoices_debt = filter (dated_until snapshot_date) df_consolidado;
          client_billing_df = filter (\<lambda>i. Cliente i = client) billing_in_month;
          client_billing = sum_list (map Total client_billing_df);
          client_invoices = filter (\<lambda>i. Cliente i = client) relevant_invoices_debt;
          acc = invoice_loop snapshot_date client_invoices
      in append_if
        [(0 < client_billing,
          row snapshot_date client Facturacion_Mensual client_billing cur
            (map Num client_billing_df)),
         (0 < deuda_lt_3_sum acc,
          row snapshot_date client Deuda_0_3_Meses (deuda_lt_3_sum acc) cur (list_lt_3 acc)),
         (0 < deuda_3_6_sum acc,
          row snapshot_date client Deuda_3_6_Meses (deuda_3_6_sum acc) cur (list_3_6 acc)),
         (0 < deuda_6_12_sum acc,
          row snapshot_date client Deuda_6_12_Meses (deuda_6_12_sum acc) cur (list_6_12 acc)),
         (0 < deuda_gt_12_sum acc,
          row snapshot_date client Deuda_gt_12_Meses (deuda_gt_12_sum acc) cur
            (list_gt_12 acc)),
         (0 < crossed_3_months_sum acc,
          row snapshot_date client Alerta_Paso_3_Meses (crossed_3_months_sum acc) cur
            (list_crossed acc)),
         (cur \<and> 0 < paid_debt_post_start_sum acc,
          row snapshot_date client Pagos_Deuda_Post_Inicio (paid_debt_post_start_sum acc) cur
            (list_paid_post_start acc)),
         (cur \<and> 0 < paid_alert_post_start_sum acc,
          row snapshot_date client Pagos_Alerta_Post_Inicio (paid_alert_post_start_sum acc)
            cur (list_paid_alert acc))])"

text \<open>The two nested loops \<open>for snapshot_date in date_range: for client in clients\<close>.\<close>

definition gold_rows :: "invoice list \<Rightarrow> date \<Rightarrow> date list \<Rightarrow> string list \<Rightarrow> gold_row list" where
  "gold_rows df_consolidado now snapshots clients =
     concat (map (\<lambda>snapshot_date.
        concat (map (client_rows df_consolidado now snapshot_date) clients)) snapshots)"

subsection \<open>The variance pass\<close>

text \<open>
  \<open>sort_values(by=['Cliente', 'Concepto', 'Fecha_Reporte'])\<close> orders the rows by this
  key: client and concept as strings, compared character by character with a proper
  prefix first, the report date as a timestamp. The sort of the script need not be
  stable; the keys of the rows of a run are distinct, so the sorted order is the same
  for every sort.
\<close>

definition sort_by :: "gold_row \<Rightarrow> string \<times> string \<times> int" where
  "sort_by r = (Cliente_Reporte r, concepto_str (Concepto r), ordinal (Fecha_Reporte r))"

text \<open>
  A row of \<open>df_prev\<close>: the report date moved one month forward, the client, the concept
  and the amount, renamed \<open>Monto_Anterior\<close>.
\<close>

definition prev_row :: "gold_row \<Rightarrow> date \<times> string \<times> concepto \<times> rat" where
  "prev_row r = (add_months (Fecha_Reporte r) 1, Cliente_Reporte r, Concepto r, Monto r)"

definition merge_key :: "gold_row \<Rightarrow> date \<times> string \<times> concepto" where
  "merge_key r = (Fecha_Reporte r, Cliente_Reporte r, Concepto r)"

definition with_variance :: "gold_row \<Rightarrow> rat \<Rightarrow> gold_row_var" where
  "with_variance r monto_anterior =
     \<lparr>Fecha_Reporte = Fecha_Reporte r, Cliente_Reporte = Cliente_Reporte r,
      Concepto = Concepto r, Monto = Monto r, Es_Mes_Actual = Es_Mes_Actual r,
      Numero_Facturas = Numero_Facturas r, Lista_Facturas = Lista_Facturas r,
      Variacion_Mes_Anterior = Monto r - monto_anterior\<rparr>"

text \<open>
  \<open>pd.merge(df_gold, df_prev, on=[...], how='left')\<close> followed by \<open>fillna(0)\<close> and the
  subtraction: a left row is kept once for every row of \<open>df_prev\<close> with its key, in the
  order of \<open>df_prev\<close>, and once with \<open>Monto_Anterior = 0\<close> when there is none.
\<close>

definition merge_left :: "gold_row list \<Rightarrow> (date \<times> string \<times> concepto \<times> rat) list \<Rightarrow> gold_row_var list" where
  "merge_left df_gold df_prev =
     concat (map (\<lambda>r.
        case filter (\<lambda>(f, c, k, m). (f, c, k) = merge_key r) df_prev of
          [] \<Rightarrow> [with_variance r 0]
        | ms \<Rightarrow> map (\<lambda>(f, c, k, m). with_variance r m) ms) df_gold)"

definition variance_pass :: "gold_row list \<Rightarrow> gold_row_var list" where
  "variance_pass rows =
     (let df_gold = sort_key sort_by rows;
          df_prev = map prev_row df_gold
      in merge_left df_gold df_prev)"

subsection \<open>The run\<close>

datatype abort = Could_not_determine_min_date

text \<open>The snapshot dates of a run, or the abort when no invoice has a date.\<close>

definition snapshot_dates :: "invoice list \<Rightarrow> date \<Rightarrow> abort + date list" where
  "snapshot_dates df_consolidado now =
     (case valid_dates (map Fecha df_consolidado) of
        [] \<Rightarrow> Inl Could_not_determine_min_date
      | d # ds \<Rightarrow>
          (let min_date = foldl ts_min d ds;
               max_data_date = foldl ts_max d ds;
               max_date = ts_max max_data_date now;
               start_date = replace_day_1 min_date;
               current_date = replace_day_1 max_date
           in Inr (date_range start_date current_date)))"

text \<open>
  \<open>df_gold\<close> as the export receives it: the rows of all snapshots and clients, sorted
  and with the variance attached unless there is no row at all.
\<close>

definition gold_layer :: "invoice list \<Rightarrow> date \<Rightarrow> abort + gold_row_var list" where
  "gold_layer df_consolidado now =
     (case snapshot_dates df_consolidado now of
        Inl e \<Rightarrow> Inl e
      | Inr snapshots \<Rightarrow>
          (let clients = unique (map Cliente df_consolidado);
               rows = gold_rows df_consolidado now snapshots clients
           in Inr (if rows = [] then [] else variance_pass rows)))"

text \<open>
  The run from the cleaned ledger on. The sink is the content of the worksheet
  \<open>Consolidacion\<close> (\<open>None\<close> while the sheet does not exist): an abort and an empty
  \<open>df_gold\<close> leave it as it is, otherwise the sheet is cleared or created and written.
\<close>

definition main :: "invoice list \<Rightarrow> date \<Rightarrow> gold_row_var list option \<Rightarrow> gold_row_var list option" where
  "main df_consolidado now worksheet =
     (case gold_layer df_consolidado now of
        Inl e \<Rightarrow> worksheet
      | Inr df_gold \<Rightarrow> if df_gold = [] then worksheet else Some df_gold)"

section \<open>Notions used to state the properties\<close>

text \<open>
  An invoice counts for the aging of a snapshot when it has a date, is unpaid as of the
  snapshot and is dated before it: the three guards around the bucket code.
\<close>

definition overdue_unpaid :: "date \<Rightarrow> invoice \<Rightarrow> bool" where
  "overdue_unpaid snapshot_date invoice =
     (case Fecha invoice of None \<Rightarrow> False
      | Some d \<Rightarrow> is_unpaid snapshot_date (Fecha_de_cobro invoice)
                    \<and> 0 < days_between snapshot_date d)"

text \<open>The overdue age in months of a dated invoice as of a date.\<close>

definition months_overdue :: "date \<Rightarrow> invoice \<Rightarrow> rat" where
  "months_overdue as_of invoice =
     (case Fecha invoice of None \<Rightarrow> 0
      | Some d \<Rightarrow> months_of_days (days_between as_of d))"

text \<open>The invoice has just crossed three months at the snapshot.\<close>

definition crosses :: "date \<Rightarrow> invoice \<Rightarrow> bool" where
  "crosses snapshot_date invoice =
     (overdue_unpaid snapshot_date invoice
      \<and> months_overdue (add_months snapshot_date (- 1)) invoice < 3
      \<and> 3 \<le> months_overdue snapshot_date invoice)"

text \<open>Which invoices a concept aggregates at a snapshot, as the spec words it.\<close>

fun contributes :: "date \<Rightarrow> concepto \<Rightarrow> invoice \<Rightarrow> bool" where
  "contributes s Facturacion_Mensual i = in_month s i"
| "contributes s Deuda_0_3_Meses i = (overdue_unpaid s i \<and> months_overdue s i < 3)"
| "contributes s Deuda_3_6_Meses i =
     (overdue_unpaid s i \<and> 3 \<le> months_overdue s i \<and> months_overdue s i < 6)"
| "contributes s Deuda_6_12_Meses i =
     (overdue_unpaid s i \<and> 6 \<le> months_overdue s i \<and> months_overdue s i < 12)"
| "contributes s Deuda_gt_12_Meses i = (overdue_unpaid s i \<and> 12 \<le> months_overdue s i)"
| "contributes s Alerta_Paso_3_Meses i = crosses s i"
| "contributes s Pagos_Deuda_Post_Inicio i = (overdue_unpaid s i \<and> Fecha_de_cobro i \<noteq> None)"
| "contributes s Pagos_Alerta_Post_Inicio i =
     (overdue_unpaid s i \<and> Fecha_de_cobro i \<noteq> None \<and> crosses s i)"

definition concept_invoices :: "invoice list \<Rightarrow> date \<Rightarrow> string \<Rightarrow> concepto \<Rightarrow> invoice list" where
  "concept_invoices df s c k = filter (\<lambda>i. Cliente i = c \<and> contributes s k i) df"

definition concept_total :: "invoice list \<Rightarrow> date \<Rightarrow> string \<Rightarrow> concepto \<Rightarrow> rat" where
  "concept_total df s c k = sum_list (map Total (concept_invoices df s c k))"

text \<open>The two payment concepts are written at the current month only.\<close>

definition current_only :: "concepto \<Rightarrow> bool" where
  "current_only k = (k = Pagos_Deuda_Post_Inicio \<or> k = Pagos_Alerta_Post_Inicio)"

text \<open>The row of a snapshot, client and concept, if there is to be one.\<close>

definition concept_rows :: "invoice list \<Rightarrow> date \<Rightarrow> date \<Rightarrow> string \<Rightarrow> concepto \<Rightarrow> gold_row list" where
  "concept_rows df now s c k =
     (if (current_only k \<longrightarrow> is_current_month now s) \<and> 0 < concept_total df s c k
      then [row s c k (concept_total df s c k) (is_current_month now s)
              (map Num (concept_invoices df s c k))]
      else [])"

definition all_conceptos :: "concepto list" where
  "all_conceptos =
     [Facturacion_Mensual, Deuda_0_3_Meses, Deuda_3_6_Meses, Deuda_6_12_Meses,
      Deuda_gt_12_Meses, Alerta_Paso_3_Meses, Pagos_Deuda_Post_Inicio,
      Pagos_Alerta_Post_Inicio]"

text \<open>The four aging buckets, with their sum and list among the accumulators.\<close>

datatype bucket = Bucket_0_3 | Bucket_3_6 | Bucket_6_12 | Bucket_gt_12

fun bucket_sum :: "bucket \<Rightarrow> accumulators \<Rightarrow> rat" where
  "bucket_sum Bucket_0_3 acc = deuda_lt_3_sum acc"
| "bucket_sum Bucket_3_6 acc = deuda_3_6_sum acc"
| "bucket_sum Bucket_6_12 acc = deuda_6_12_sum acc"
| "bucket_sum Bucket_gt_12 acc = deuda_gt_12_sum acc"

fun bucket_list :: "bucket \<Rightarrow> accumulators \<Rightarrow> string list" where
  "bucket_list Bucket_0_3 acc = list_lt_3 acc"
| "bucket_list Bucket_3_6 acc = list_3_6 acc"
| "bucket_list Bucket_6_12 acc = list_6_12 acc"
| "bucket_list Bucket_gt_12 acc = list_gt_12 acc"

text \<open>The bucket of an overdue age \<open>m\<close>, by the spec's left-closed bounds.\<close>

definition bucket_of :: "rat \<Rightarrow> bucket" where
  "bucket_of m =
     (if m < 3 then Bucket_0_3 else if m < 6 then Bucket_3_6
      else if m < 12 then Bucket_6_12 else Bucket_gt_12)"

text \<open>The loop body counts the invoice in a bucket: number appended, total added.\<close>

definition counted_in :: "bucket \<Rightarrow> invoice \<Rightarrow> accumulators \<Rightarrow> accumulators \<Rightarrow> bool" where
  "counted_in b invoice acc acc' =
     (bucket_list b acc' = bucket_list b acc @ [Num invoice]
      \<and> bucket_sum b acc' = bucket_sum b acc + Total invoice)"

definition untouched :: "bucket \<Rightarrow> accumulators \<Rightarrow> accumulators \<Rightarrow> bool" where
  "untouched b acc acc' =
     (bucket_list b acc' = bucket_list b acc \<and> bucket_sum b acc' = bucket_sum b acc)"

text \<open>
  The amount of the row, among \<open>rows\<close>, with the client and concept of \<open>r\<close> and dated
  one calendar month before it; 0 when there is none.
\<close>

definition prior_amount :: "gold_row list \<Rightarrow> gold_row \<Rightarrow> rat" where
  "prior_amount rows r =
     (case filter (\<lambda>p. Cliente_Reporte p = Cliente_Reporte r \<and> Concepto p = Concepto r
                       \<and> add_months (Fecha_Reporte p) 1 = Fecha_Reporte r) rows of
        [] \<Rightarrow> 0
      | p # ps \<Rightarrow> Monto p)"

text \<open>The key under which a row is looked up as the prior month of another.\<close>

definition shifted_key :: "gold_row \<Rightarrow> date \<times> string \<times> concepto" where
  "shifted_key p = (add_months (Fecha_Reporte p) 1, Cliente_Reporte p, Concepto p)"

section \<open>Example ledgers\<close>

text \<open>
  The spec's scenario: one invoice of client Acme, dated 2024-01-10, total 100, with a
  payment date or without.
\<close>

definition acme_invoice :: "date option \<Rightarrow> rat \<Rightarrow> invoice" where
  "acme_invoice payment_date amount =
     \<lparr>Cliente = ''Acme'', Num = ''F1'', Fecha = Some (mk_date 2024 1 10),
      Fecha_de_cobro = payment_date, Total = amount\<rparr>"


text \<open>A ledger whose only row has a date that could not be parsed.\<close>

definition undated_ledger :: "invoice list" where
  "undated_ledger =
     [\<lparr>Cliente = ''Acme'', Num = ''F1'', Fecha = None, Fecha_de_cobro = None, Total = 100\<rparr>]"

text \<open>An unpaid invoice dated on the first day of February 2024.\<close>

definition february_invoice :: invoice where
  "february_invoice =
     \<lparr>Cliente = ''Acme'', Num = ''F2'', Fecha = Some (mk_date 2024 2 1),
      Fecha_de_cobro = None, Total = 100\<rparr>"

text \<open>
  A row of the gold layer for the Acme invoice: the month of 2024 it reports, the
  concept, whether the month is the current one, and the amount of the month before.
\<close>

definition acme_row :: "int \<Rightarrow> concepto \<Rightarrow> bool \<Rightarrow> rat \<Rightarrow> gold_row_var" where
  "acme_row m k cur monto_anterior =
     with_variance (row (mk_date 2024 m 1) ''Acme'' k 100 cur [''F1'']) monto_anterior"


section \<open>Facts about the calendar\<close>

lemma div_step:
  fixes y :: int
  assumes "0 < k"
  shows "y div k - (y - 1) div k = (if y mod k = 0 then 1 else 0)"
proof (cases "y mod k = 0")
  case True
  have "y = y div k * k + y mod k" by simp
  with True have "y = y div k * k" by simp
  then have "y - 1 = (k - 1) + (y div k - 1) * k" by (simp add: algebra_simps)
  then have "(y - 1) div k = ((k - 1) + (y div k - 1) * k) div k"
    by (rule arg_cong)
  also have "\<dots> = (k - 1) div k + (y div k - 1)" using assms by (subst div_mult_self1) simp_all
  also have "\<dots> = y div k - 1" using assms by (simp add: div_pos_pos_trivial)
  finally show ?thesis using True by simp
next
  case False
  have "0 \<le> y mod k" "y mod k < k" using assms by simp_all
  with False have m: "0 < y mod k" "y mod k < k" by simp_all
  have "y - 1 = (y mod k - 1) + (y div k) * k" by simp
  then have "(y - 1) div k = ((y mod k - 1) + (y div k) * k) div k"
    by (rule arg_cong)
  also have "\<dots> = (y mod k - 1) div k + y div k" using assms by (subst div_mult_self1) simp_all
  also have "\<dots> = y div k" using assms m by (simp add: div_pos_pos_trivial)
  finally show ?thesis using False by simp
qed

lemma mod_400_100: "(y::int) mod 400 = 0 \<Longrightarrow> y mod 100 = 0"
proof -
  assume "y mod 400 = 0"
  then have "400 dvd y" by (simp add: dvd_eq_mod_eq_0)
  moreover have "(100::int) dvd 400" by simp
  ultimately have "100 dvd y" by (rule dvd_trans [rotated])
  then show ?thesis by (simp add: dvd_eq_mod_eq_0)
qed

lemma mod_100_4: "(y::int) mod 100 = 0 \<Longrightarrow> y mod 4 = 0"
proof -
  assume "y mod 100 = 0"
  then have "100 dvd y" by (simp add: dvd_eq_mod_eq_0)
  moreover have "(4::int) dvd 100" by simp
  ultimately have "4 dvd y" by (rule dvd_trans [rotated])
  then show ?thesis by (simp add: dvd_eq_mod_eq_0)
qed

lemma days_before_year_step:
  "days_before_year (y + 1) = days_before_year y + 365 + (if is_leap y then 1 else 0)"
proof -
  define a where "a = y div 4"
  define a' where "a' = (y - 1) div 4"
  define b where "b = y div 100"
  define b' where "b' = (y - 1) div 100"
  define c where "c = y div 400"
  define c' where "c' = (y - 1) div 400"
  define p where "p = (y mod 4 = 0)"
  define q where "q = (y mod 100 = 0)"
  define r where "r = (y mod 400 = 0)"
  have a: "a - a' = (if p then 1 else 0)"
    unfolding a_def a'_def p_def by (rule div_step) simp
  have b: "b - b' = (if q then 1 else 0)"
    unfolding b_def b'_def q_def by (rule div_step) simp
  have c: "c - c' = (if r then 1 else 0)"
    unfolding c_def c'_def r_def by (rule div_step) simp
  have d: "r \<Longrightarrow> q" unfolding r_def q_def by (rule mod_400_100)
  have e: "q \<Longrightarrow> p" unfolding p_def q_def by (rule mod_100_4)
  have l: "is_leap y = (p \<and> (\<not> q \<or> r))"
    by (simp add: is_leap_def p_def q_def r_def)
  have "days_before_year (y + 1) = y * 365 + a - b + c"
    by (simp add: days_before_year_def a_def b_def c_def)
  moreover have "days_before_year y = (y - 1) * 365 + a' - b' + c'"
    by (simp add: days_before_year_def a'_def b'_def c'_def)
  moreover have "a - b + c = a' - b' + c' + (if is_leap y then 1 else 0)"
    using a b c d e unfolding l by (cases p; cases q; cases r) simp_all
  ultimately show ?thesis by (simp add: algebra_simps)
qed


lemma month_succ_same_year:
  fixes i :: int
  assumes "i mod 12 < 11"
  shows "(i + 1) div 12 = i div 12" "(i + 1) mod 12 = i mod 12 + 1"
proof -
  have e: "i + 1 = (i mod 12 + 1) + (i div 12) * 12" by simp
  have r: "0 \<le> i mod 12 + 1" "i mod 12 + 1 < 12" using assms by simp_all
  have "(i + 1) div 12 = ((i mod 12 + 1) + (i div 12) * 12) div 12"
    using e by (rule arg_cong)
  also have "\<dots> = (i mod 12 + 1) div 12 + i div 12" by (subst div_mult_self1) simp_all
  also have "\<dots> = i div 12" using r by (simp add: div_pos_pos_trivial)
  finally show "(i + 1) div 12 = i div 12" .
  have "(i + 1) mod 12 = ((i mod 12 + 1) + (i div 12) * 12) mod 12"
    using e by (rule arg_cong)
  also have "\<dots> = (i mod 12 + 1) mod 12" by (rule mod_mult_self1)
  also have "\<dots> = i mod 12 + 1" using r by (simp add: mod_pos_pos_trivial)
  finally show "(i + 1) mod 12 = i mod 12 + 1" .
qed

lemma month_succ_next_year:
  fixes i :: int
  assumes "i mod 12 = 11"
  shows "(i + 1) div 12 = i div 12 + 1" "(i + 1) mod 12 = 0"
proof -
  have "i = i div 12 * 12 + i mod 12" by simp
  with assms have "i = i div 12 * 12 + 11" by simp
  then have e: "i + 1 = 0 + (i div 12 + 1) * 12" by (simp add: algebra_simps)
  have "(i + 1) div 12 = (0 + (i div 12 + 1) * 12) div 12"
    using e by (rule arg_cong)
  also have "\<dots> = i div 12 + 1" by simp
  finally show "(i + 1) div 12 = i div 12 + 1" .
  have "(i + 1) mod 12 = (0 + (i div 12 + 1) * 12) mod 12"
    using e by (rule arg_cong)
  also have "\<dots> = 0" by simp
  finally show "(i + 1) mod 12 = 0" .
qed

lemma month_cases:
  fixes i :: int
  shows "i mod 12 = 0 \<or> i mod 12 = 1 \<or> i mod 12 = 2 \<or> i mod 12 = 3 \<or> i mod 12 = 4
    \<or> i mod 12 = 5 \<or> i mod 12 = 6 \<or> i mod 12 = 7 \<or> i mod 12 = 8 \<or> i mod 12 = 9
    \<or> i mod 12 = 10 \<or> i mod 12 = 11"
proof -
  define r where "r = i mod 12"
  have "r \<in> {0..11}" by (simp add: r_def)
  also have "{0..11} = set [0..11::int]" by (simp only: set_upto)
  also have "[0..11::int] = [0,1,2,3,4,5,6,7,8,9,10,11]" by (simp add: upto_rec1)
  finally have "r = 0 \<or> r = 1 \<or> r = 2 \<or> r = 3 \<or> r = 4
    \<or> r = 5 \<or> r = 6 \<or> r = 7 \<or> r = 8 \<or> r = 9 \<or> r = 10 \<or> r = 11" by simp
  then show ?thesis by (simp only: r_def)
qed

lemma ordinal_month_start_step:
  "ordinal (month_start (i + 1)) = ordinal (month_start i) + days_in_month (i div 12) (i mod 12 + 1)"
proof (cases "i mod 12 = 11")
  case True
  show ?thesis
    using True month_succ_next_year [OF True] days_before_year_step [of "i div 12"]
    by (simp add: ordinal_def month_start_def days_before_month_def days_in_month_def)
next
  case False
  with month_cases [of i] have c: "i mod 12 = 0 \<or> i mod 12 = 1 \<or> i mod 12 = 2 \<or> i mod 12 = 3
    \<or> i mod 12 = 4 \<or> i mod 12 = 5 \<or> i mod 12 = 6 \<or> i mod 12 = 7 \<or> i mod 12 = 8
    \<or> i mod 12 = 9 \<or> i mod 12 = 10" by simp
  then have "i mod 12 < 11" by (elim disjE) simp_all
  note s = month_succ_same_year [OF this]
  from c show ?thesis
    by (elim disjE) (simp_all add: s ordinal_def month_start_def days_before_month_def
        days_in_month_def)
qed


lemma days_in_month_pos: "28 \<le> days_in_month y m" "days_in_month y m \<le> 31"
  by (simp_all add: days_in_month_def)

lemma ordinal_month_start_less_step: "ordinal (month_start i) < ordinal (month_start (i + 1))"
  using days_in_month_pos(1) [of "i div 12" "i mod 12 + 1"]
  by (simp add: ordinal_month_start_step)

lemma ordinal_month_start_mono_aux:
  "ordinal (month_start i) \<le> ordinal (month_start (i + int n))"
proof (induction n)
  case 0
  show ?case by simp
next
  case (Suc n)
  have "ordinal (month_start (i + int n)) < ordinal (month_start (i + int n + 1))"
    by (rule ordinal_month_start_less_step)
  moreover have "i + int (Suc n) = i + int n + 1" by simp
  ultimately show ?case using Suc by (simp only:)
qed

lemma ordinal_month_start_mono:
  assumes "i \<le> j"
  shows "ordinal (month_start i) \<le> ordinal (month_start j)"
proof -
  have "j = i + int (nat (j - i))" using assms by simp
  then show ?thesis using ordinal_month_start_mono_aux [of i "nat (j - i)"] by simp
qed

lemma ordinal_month_start_strict:
  assumes "i < j"
  shows "ordinal (month_start i) < ordinal (month_start j)"
proof -
  have "ordinal (month_start i) < ordinal (month_start (i + 1))"
    by (rule ordinal_month_start_less_step)
  also have "\<dots> \<le> ordinal (month_start j)"
    using assms by (intro ordinal_month_start_mono) simp
  finally show ?thesis .
qed

lemma month_start_inj:
  assumes "month_start i = month_start j"
  shows "i = j"
proof -
  have "i div 12 = j div 12" "i mod 12 = j mod 12"
    using assms by (simp_all add: month_start_def)
  moreover have "i = i div 12 * 12 + i mod 12" "j = j div 12 * 12 + j mod 12" by simp_all
  ultimately show "i = j" by simp
qed

lemma month_index_month_start: "month_index (month_start i) = i"
  by (simp add: month_index_def month_start_def)

lemma add_months_month_start: "add_months (month_start i) k = month_start (i + k)"
proof -
  have "1 \<le> days_in_month y m" for y m
    using days_in_month_pos(1) [of y m] by simp
  then show ?thesis
    by (simp add: add_months_def month_index_month_start Let_def)
      (simp add: month_start_def)
qed

section \<open>Facts about the loop over a client's invoices\<close>



lemma process_invoice_aging:
  "process_invoice s i acc =
     (if overdue_unpaid s i then
        (let m = months_overdue s i;
             acc1 = (if m < 3 then
                       acc\<lparr>deuda_lt_3_sum := deuda_lt_3_sum acc + Total i,
                            list_lt_3 := list_lt_3 acc @ [Num i]\<rparr>
                     else if m < 6 then
                       acc\<lparr>deuda_3_6_sum := deuda_3_6_sum acc + Total i,
                            list_3_6 := list_3_6 acc @ [Num i]\<rparr>
                     else if m < 12 then
                       acc\<lparr>deuda_6_12_sum := deuda_6_12_sum acc + Total i,
                            list_6_12 := list_6_12 acc @ [Num i]\<rparr>
                     else
                       acc\<lparr>deuda_gt_12_sum := deuda_gt_12_sum acc + Total i,
                            list_gt_12 := list_gt_12 acc @ [Num i]\<rparr>);
             acc2 = (if crosses s i then
                       acc1\<lparr>crossed_3_months_sum := crossed_3_months_sum acc1 + Total i,
                             list_crossed := list_crossed acc1 @ [Num i]\<rparr>
                     else acc1);
             acc3 = (if Fecha_de_cobro i \<noteq> None then
                       acc2\<lparr>paid_debt_post_start_sum := paid_debt_post_start_sum acc2 + Total i,
                             list_paid_post_start := list_paid_post_start acc2 @ [Num i]\<rparr>
                     else acc2)
         in if Fecha_de_cobro i \<noteq> None \<and> crosses s i then
              acc3\<lparr>paid_alert_post_start_sum := paid_alert_post_start_sum acc3 + Total i,
                    list_paid_alert := list_paid_alert acc3 @ [Num i]\<rparr>
            else acc3)
      else acc)"
proof (cases "Fecha i")
  case None
  then show ?thesis by (simp add: process_invoice_def overdue_unpaid_def)
next
  case (Some d)
  show ?thesis
  proof (cases "overdue_unpaid s i")
    case False
    then show ?thesis using Some
      by (simp add: process_invoice_def overdue_unpaid_def Let_def)
  next
    case True
    then have u: "is_unpaid s (Fecha_de_cobro i)" "0 < days_between s d"
      using Some by (simp_all add: overdue_unpaid_def)
    have m: "months_overdue s i = months_of_days (days_between s d)"
      "months_overdue (add_months s (- 1)) i = months_of_days (days_between (add_months s (- 1)) d)"
      using Some by (simp_all add: months_overdue_def)
    have c: "crossed_3 (months_of_days (days_between (add_months s (- 1)) d))
               (months_of_days (days_between s d)) = crosses s i"
      using True m by (simp add: crossed_3_def crosses_def)
    show ?thesis
      unfolding process_invoice_def Let_def
      by (simp add: Some u c True m(1) not_less)
  qed
qed


lemma not_overdue_not_crosses: "\<not> overdue_unpaid s i \<Longrightarrow> crosses s i = False"
  by (simp add: crosses_def)

lemma process_invoice_sums:
  "deuda_lt_3_sum (process_invoice s i acc) =
     deuda_lt_3_sum acc + (if contributes s Deuda_0_3_Meses i then Total i else 0)"
  "deuda_3_6_sum (process_invoice s i acc) =
     deuda_3_6_sum acc + (if contributes s Deuda_3_6_Meses i then Total i else 0)"
  "deuda_6_12_sum (process_invoice s i acc) =
     deuda_6_12_sum acc + (if contributes s Deuda_6_12_Meses i then Total i else 0)"
  "deuda_gt_12_sum (process_invoice s i acc) =
     deuda_gt_12_sum acc + (if contributes s Deuda_gt_12_Meses i then Total i else 0)"
  "crossed_3_months_sum (process_invoice s i acc) =
     crossed_3_months_sum acc + (if contributes s Alerta_Paso_3_Meses i then Total i else 0)"
  "paid_debt_post_start_sum (process_invoice s i acc) =
     paid_debt_post_start_sum acc + (if contributes s Pagos_Deuda_Post_Inicio i then Total i else 0)"
  "paid_alert_post_start_sum (process_invoice s i acc) =
     paid_alert_post_start_sum acc + (if contributes s Pagos_Alerta_Post_Inicio i then Total i else 0)"
  by (simp_all add: process_invoice_aging Let_def not_less not_overdue_not_crosses)

lemma process_invoice_lists:
  "list_lt_3 (process_invoice s i acc) =
     list_lt_3 acc @ (if contributes s Deuda_0_3_Meses i then [Num i] else [])"
  "list_3_6 (process_invoice s i acc) =
     list_3_6 acc @ (if contributes s Deuda_3_6_Meses i then [Num i] else [])"
  "list_6_12 (process_invoice s i acc) =
     list_6_12 acc @ (if contributes s Deuda_6_12_Meses i then [Num i] else [])"
  "list_gt_12 (process_invoice s i acc) =
     list_gt_12 acc @ (if contributes s Deuda_gt_12_Meses i then [Num i] else [])"
  "list_crossed (process_invoice s i acc) =
     list_crossed acc @ (if contributes s Alerta_Paso_3_Meses i then [Num i] else [])"
  "list_paid_post_start (process_invoice s i acc) =
     list_paid_post_start acc @ (if contributes s Pagos_Deuda_Post_Inicio i then [Num i] else [])"
  "list_paid_alert (process_invoice s i acc) =
     list_paid_alert acc @ (if contributes s Pagos_Alerta_Post_Inicio i then [Num i] else [])"
  by (simp_all add: process_invoice_aging Let_def not_less not_overdue_not_crosses)

lemma foldl_sum_field:
  fixes g :: "'s \<Rightarrow> rat"
  assumes "\<And>a x. g (f a x) = g a + (if P x then t x else 0)"
  shows "g (foldl f a xs) = g a + sum_list (map t (filter P xs))"
  by (induction xs arbitrary: a) (simp_all add: assms)

lemma foldl_list_field:
  fixes g :: "'s \<Rightarrow> 'n list"
  assumes "\<And>a x. g (f a x) = g a @ (if P x then [n x] else [])"
  shows "g (foldl f a xs) = g a @ map n (filter P xs)"
  by (induction xs arbitrary: a) (simp_all add: assms)

lemma invoice_loop_sums:
  "deuda_lt_3_sum (invoice_loop s xs) = sum_list (map Total (filter (contributes s Deuda_0_3_Meses) xs))"
  "deuda_3_6_sum (invoice_loop s xs) = sum_list (map Total (filter (contributes s Deuda_3_6_Meses) xs))"
  "deuda_6_12_sum (invoice_loop s xs) = sum_list (map Total (filter (contributes s Deuda_6_12_Meses) xs))"
  "deuda_gt_12_sum (invoice_loop s xs) = sum_list (map Total (filter (contributes s Deuda_gt_12_Meses) xs))"
  "crossed_3_months_sum (invoice_loop s xs) = sum_list (map Total (filter (contributes s Alerta_Paso_3_Meses) xs))"
  "paid_debt_post_start_sum (invoice_loop s xs) = sum_list (map Total (filter (contributes s Pagos_Deuda_Post_Inicio) xs))"
  "paid_alert_post_start_sum (invoice_loop s xs) = sum_list (map Total (filter (contributes s Pagos_Alerta_Post_Inicio) xs))"
proof -
  have z: "deuda_lt_3_sum init_accumulators = 0" "deuda_3_6_sum init_accumulators = 0"
    "deuda_6_12_sum init_accumulators = 0" "deuda_gt_12_sum init_accumulators = 0"
    "crossed_3_months_sum init_accumulators = 0"
    "paid_debt_post_start_sum init_accumulators = 0"
    "paid_alert_post_start_sum init_accumulators = 0"
    by (simp_all add: init_accumulators_def)
  show "deuda_lt_3_sum (invoice_loop s xs) = sum_list (map Total (filter (contributes s Deuda_0_3_Meses) xs))"
    unfolding invoice_loop_def
    by (subst foldl_sum_field [where P = "contributes s Deuda_0_3_Meses" and t = Total])
      (simp_all only: process_invoice_sums z add_0)
  show "deuda_3_6_sum (invoice_loop s xs) = sum_list (map Total (filter (contributes s Deuda_3_6_Meses) xs))"
    unfolding invoice_loop_def
    by (subst foldl_sum_field [where P = "contributes s Deuda_3_6_Meses" and t = Total])
      (simp_all only: process_invoice_sums z add_0)
  show "deuda_6_12_sum (invoice_loop s xs) = sum_list (map Total (filter (contributes s Deuda_6_12_Meses) xs))"
    unfolding invoice_loop_def
    by (subst foldl_sum_field [where P = "contributes s Deuda_6_12_Meses" and t = Total])
      (simp_all only: process_invoice_sums z add_0)
  show "deuda_gt_12_sum (invoice_loop s xs) = sum_list (map Total (filter (contributes s Deuda_gt_12_Meses) xs))"
    unfolding invoice_loop_def
    by (subst foldl_sum_field [where P = "contributes s Deuda_gt_12_Meses" and t = Total])
      (simp_all only: process_invoice_sums z add_0)
  show "crossed_3_months_sum (invoice_loop s xs) = sum_list (map Total (filter (contributes s Alerta_Paso_3_Meses) xs))"
    unfolding invoice_loop_def
    by (subst foldl_sum_field [where P = "contributes s Alerta_Paso_3_Meses" and t = Total])
      (simp_all only: process_invoice_sums z add_0)
  show "paid_debt_post_start_sum (invoice_loop s xs) = sum_list (map Total (filter (contributes s Pagos_Deuda_Post_Inicio) xs))"
    unfolding invoice_loop_def
    by (subst foldl_sum_field [where P = "contributes s Pagos_Deuda_Post_Inicio" and t = Total])
      (simp_all only: process_invoice_sums z add_0)
  show "paid_alert_post_start_sum (invoice_loop s xs) = sum_list (map Total (filter (contributes s Pagos_Alerta_Post_Inicio) xs))"
    unfolding invoice_loop_def
    by (subst foldl_sum_field [where P = "contributes s Pagos_Alerta_Post_Inicio" and t = Total])
      (simp_all only: process_invoice_sums z add_0)
qed

lemma invoice_loop_lists:
  "list_lt_3 (invoice_loop s xs) = map Num (filter (contributes s Deuda_0_3_Meses) xs)"
  "list_3_6 (invoice_loop s xs) = map Num (filter (contributes s Deuda_3_6_Meses) xs)"
  "list_6_12 (invoice_loop s xs) = map Num (filter (contributes s Deuda_6_12_Meses) xs)"
  "list_gt_12 (invoice_loop s xs) = map Num (filter (contributes s Deuda_gt_12_Meses) xs)"
  "list_crossed (invoice_loop s xs) = map Num (filter (contributes s Alerta_Paso_3_Meses) xs)"
  "list_paid_post_start (invoice_loop s xs) = map Num (filter (contributes s Pagos_Deuda_Post_Inicio) xs)"
  "list_paid_alert (invoice_loop s xs) = map Num (filter (contributes s Pagos_Alerta_Post_Inicio) xs)"
proof -
  have z: "list_lt_3 init_accumulators = []" "list_3_6 init_accumulators = []"
    "list_6_12 init_accumulators = []" "list_gt_12 init_accumulators = []"
    "list_crossed init_accumulators = []" "list_paid_post_start init_accumulators = []"
    "list_paid_alert init_accumulators = []"
    by (simp_all add: init_accumulators_def)
  show "list_lt_3 (invoice_loop s xs) = map Num (filter (contributes s Deuda_0_3_Meses) xs)"
    unfolding invoice_loop_def
    by (subst foldl_list_field [where P = "contributes s Deuda_0_3_Meses" and n = Num])
      (simp_all only: process_invoice_lists z append_Nil)
  show "list_3_6 (invoice_loop s xs) = map Num (filter (contributes s Deuda_3_6_Meses) xs)"
    unfolding invoice_loop_def
    by (subst foldl_list_field [where P = "contributes s Deuda_3_6_Meses" and n = Num])
      (simp_all only: process_invoice_lists z append_Nil)
  show "list_6_12 (invoice_loop s xs) = map Num (filter (contributes s Deuda_6_12_Meses) xs)"
    unfolding invoice_loop_def
    by (subst foldl_list_field [where P = "contributes s Deuda_6_12_Meses" and n = Num])
      (simp_all only: process_invoice_lists z append_Nil)
  show "list_gt_12 (invoice_loop s xs) = map Num (filter (contributes s Deuda_gt_12_Meses) xs)"
    unfolding invoice_loop_def
    by (subst foldl_list_field [where P = "contributes s Deuda_gt_12_Meses" and n = Num])
      (simp_all only: process_invoice_lists z append_Nil)
  show "list_crossed (invoice_loop s xs) = map Num (filter (contributes s Alerta_Paso_3_Meses) xs)"
    unfolding invoice_loop_def
    by (subst foldl_list_field [where P = "contributes s Alerta_Paso_3_Meses" and n = Num])
      (simp_all only: process_invoice_lists z append_Nil)
  show "list_paid_post_start (invoice_loop s xs) = map Num (filter (contributes s Pagos_Deuda_Post_Inicio) xs)"
    unfolding invoice_loop_def
    by (subst foldl_list_field [where P = "contributes s Pagos_Deuda_Post_Inicio" and n = Num])
      (simp_all only: process_invoice_lists z append_Nil)
  show "list_paid_alert (invoice_loop s xs) = map Num (filter (contributes s Pagos_Alerta_Post_Inicio) xs)"
    unfolding invoice_loop_def
    by (subst foldl_list_field [where P = "contributes s Pagos_Alerta_Post_Inicio" and n = Num])
      (simp_all only: process_invoice_lists z append_Nil)
qed


section \<open>The rows of one snapshot and client, concept by concept\<close>

lemma overdue_unpaid_dated_until: "overdue_unpaid s i \<Longrightarrow> dated_until s i"
  by (auto simp: overdue_unpaid_def dated_until_def days_between_def split: option.splits)

lemma contributes_dated_until:
  "k \<noteq> Facturacion_Mensual \<Longrightarrow> contributes s k i \<Longrightarrow> dated_until s i"
  by (cases k) (auto simp: crosses_def intro: overdue_unpaid_dated_until)

lemma debt_invoices:
  assumes "k \<noteq> Facturacion_Mensual"
  shows "filter (contributes s k) (filter (\<lambda>i. Cliente i = c) (filter (dated_until s) df))
           = concept_invoices df s c k"
  unfolding concept_invoices_def filter_filter
  using contributes_dated_until [OF assms] by (intro filter_cong refl) auto

lemma billing_invoices:
  "filter (\<lambda>i. Cliente i = c) (filter (in_month s) df) = concept_invoices df s c Facturacion_Mensual"
  unfolding concept_invoices_def filter_filter
  by (intro filter_cong refl) auto

lemma append_if_split: "append_if (p # q # ps) = append_if [p] @ append_if (q # ps)"
  by (simp add: append_if_def)

lemma append_if_one: "append_if [(b, r)] = (if b then [r] else [])"
  by (simp add: append_if_def)

lemma client_rows_eq:
  "client_rows df now s c = concat (map (concept_rows df now s c) all_conceptos)"
proof -
  let ?cur = "is_current_month now s"
  let ?bill = "filter (\<lambda>i. Cliente i = c) (filter (in_month s) df)"
  let ?acc = "invoice_loop s (filter (\<lambda>i. Cliente i = c) (filter (dated_until s) df))"
  have e0: "append_if [(0 < sum_list (map Total ?bill),
                row s c Facturacion_Mensual (sum_list (map Total ?bill)) ?cur (map Num ?bill))]
              = concept_rows df now s c Facturacion_Mensual"
    by (simp only: billing_invoices)
      (simp add: concept_rows_def concept_total_def current_only_def append_if_one)
  have e1: "append_if [(0 < deuda_lt_3_sum ?acc,
                row s c Deuda_0_3_Meses (deuda_lt_3_sum ?acc) ?cur (list_lt_3 ?acc))]
              = concept_rows df now s c Deuda_0_3_Meses"
    by (simp only: invoice_loop_sums invoice_loop_lists debt_invoices concepto.distinct
        not_False_eq_True)
      (simp add: concept_rows_def concept_total_def current_only_def append_if_one)
  have e2: "append_if [(0 < deuda_3_6_sum ?acc,
                row s c Deuda_3_6_Meses (deuda_3_6_sum ?acc) ?cur (list_3_6 ?acc))]
              = concept_rows df now s c Deuda_3_6_Meses"
    by (simp only: invoice_loop_sums invoice_loop_lists debt_invoices concepto.distinct
        not_False_eq_True)
      (simp add: concept_rows_def concept_total_def current_only_def append_if_one)
  have e3: "append_if [(0 < deuda_6_12_sum ?acc,
                row s c Deuda_6_12_Meses (deuda_6_12_sum ?acc) ?cur (list_6_12 ?acc))]
              = concept_rows df now s c Deuda_6_12_Meses"
    by (simp only: invoice_loop_sums invoice_loop_lists debt_invoices concepto.distinct
        not_False_eq_True)
      (simp add: concept_rows_def concept_total_def current_only_def append_if_one)
  have e4: "append_if [(0 < deuda_gt_12_sum ?acc,
                row s c Deuda_gt_12_Meses (deuda_gt_12_sum ?acc) ?cur (list_gt_12 ?acc))]
              = concept_rows df now s c Deuda_gt_12_Meses"
    by (simp only: invoice_loop_sums invoice_loop_lists debt_invoices concepto.distinct
        not_False_eq_True)
      (simp add: concept_rows_def concept_total_def current_only_def append_if_one)
  have e5: "append_if [(0 < crossed_3_months_sum ?acc,
                row s c Alerta_Paso_3_Meses (crossed_3_months_sum ?acc) ?cur (list_crossed ?acc))]
              = concept_rows df now s c Alerta_Paso_3_Meses"
    by (simp only: invoice_loop_sums invoice_loop_lists debt_invoices concepto.distinct
        not_False_eq_True)
      (simp add: concept_rows_def concept_total_def current_only_def append_if_one)
  have e6: "append_if [(?cur \<and> 0 < paid_debt_post_start_sum ?acc,
                row s c Pagos_Deuda_Post_Inicio (paid_debt_post_start_sum ?acc) ?cur (list_paid_post_start ?acc))]
              = concept_rows df now s c Pagos_Deuda_Post_Inicio"
    by (simp only: invoice_loop_sums invoice_loop_lists debt_invoices concepto.distinct
        not_False_eq_True)
      (simp add: concept_rows_def concept_total_def current_only_def append_if_one)
  have e7: "append_if [(?cur \<and> 0 < paid_alert_post_start_sum ?acc,
                row s c Pagos_Alerta_Post_Inicio (paid_alert_post_start_sum ?acc) ?cur (list_paid_alert ?acc))]
              = concept_rows df now s c Pagos_Alerta_Post_Inicio"
    by (simp only: invoice_loop_sums invoice_loop_lists debt_invoices concepto.distinct
        not_False_eq_True)
      (simp add: concept_rows_def concept_total_def current_only_def append_if_one)
  show ?thesis
    unfolding client_rows_def Let_def all_conceptos_def
    by (simp only: append_if_split e0 e1 e2 e3 e4 e5 e6 e7 list.map concat.simps append_Nil2)
qed

section \<open>Facts about the rows of a run\<close>

lemma row_fields:
  "Fecha_Reporte (row s c k m cur ns) = s" "Cliente_Reporte (row s c k m cur ns) = c"
  "Concepto (row s c k m cur ns) = k" "Monto (row s c k m cur ns) = m"
  "Es_Mes_Actual (row s c k m cur ns) = cur" "Numero_Facturas (row s c k m cur ns) = length ns"
  "Lista_Facturas (row s c k m cur ns) = join '', '' ns"
  by (simp_all add: row_def)

lemma concept_rows_props:
  assumes "r \<in> set (concept_rows df now s c k)"
  shows "r = row s c k (concept_total df s c k) (is_current_month now s)
               (map Num (concept_invoices df s c k))"
    and "0 < concept_total df s c k"
    and "current_only k \<Longrightarrow> is_current_month now s"
  using assms by (simp_all add: concept_rows_def split: if_splits)

lemma concept_rows_key:
  assumes "r \<in> set (concept_rows df now s c k)"
  shows "merge_key r = (s, c, k)"
  using concept_rows_props(1) [OF assms] by (simp add: merge_key_def row_fields)

lemma client_rows_props:
  assumes "r \<in> set (client_rows df now s c)"
  shows "Fecha_Reporte r = s" "Cliente_Reporte r = c"
    "r \<in> set (concept_rows df now s c (Concepto r))"
proof -
  from assms obtain k where k: "r \<in> set (concept_rows df now s c k)"
    by (auto simp: client_rows_eq)
  from concept_rows_key [OF k] have e: "Fecha_Reporte r = s" "Cliente_Reporte r = c" "Concepto r = k"
    by (simp_all add: merge_key_def)
  show "Fecha_Reporte r = s" "Cliente_Reporte r = c" by (rule e)+
  show "r \<in> set (concept_rows df now s c (Concepto r))" using k e by simp
qed

lemma gold_rows_props:
  assumes "r \<in> set (gold_rows df now snaps clients)"
  shows "Fecha_Reporte r \<in> set snaps" "Cliente_Reporte r \<in> set clients"
    "r \<in> set (concept_rows df now (Fecha_Reporte r) (Cliente_Reporte r) (Concepto r))"
proof -
  from assms obtain s c where sc: "s \<in> set snaps" "c \<in> set clients"
    "r \<in> set (client_rows df now s c)"
    by (auto simp: gold_rows_def)
  note p = client_rows_props [OF sc(3)]
  show "Fecha_Reporte r \<in> set snaps" using sc p by simp
  show "Cliente_Reporte r \<in> set clients" using sc p by simp
  show "r \<in> set (concept_rows df now (Fecha_Reporte r) (Cliente_Reporte r) (Concepto r))"
    using p by simp
qed


lemma distinct_concat_map_key:
  assumes "distinct xs" "\<And>y. y \<in> set xs \<Longrightarrow> distinct (map k (f y))"
    "\<And>y r. y \<in> set xs \<Longrightarrow> r \<in> set (f y) \<Longrightarrow> g (k r) = y"
  shows "distinct (map k (concat (map f xs)))"
  using assms
proof (induction xs)
  case Nil
  then show ?case by simp
next
  case (Cons a xs)
  have g: "\<And>y r. y \<in> set (a # xs) \<Longrightarrow> r \<in> set (f y) \<Longrightarrow> g (k r) = y" by (rule Cons.prems(3))
  have 1: "distinct (map k (f a))" using Cons.prems(2) by simp
  have 2: "distinct (map k (concat (map f xs)))"
    using Cons.prems by (intro Cons.IH) auto
  have 3: "k ` set (f a) \<inter> k ` set (concat (map f xs)) = {}"
  proof (rule ccontr)
    assume "k ` set (f a) \<inter> k ` set (concat (map f xs)) \<noteq> {}"
    then obtain r r' where r: "r \<in> set (f a)" "r' \<in> set (concat (map f xs))" "k r = k r'"
      by auto
    from r(2) obtain y where y: "y \<in> set xs" "r' \<in> set (f y)" by auto
    have "g (k r) = a" using g [of a r] r(1) by simp
    moreover have "g (k r') = y" using g [of y r'] y by simp
    ultimately have "y = a" using r(3) by simp
    then show False using y(1) Cons.prems(1) by simp
  qed
  show ?case using 1 2 3 by simp
qed

lemma concept_rows_distinct_keys:
  "distinct (map merge_key (concat (map (concept_rows df now s c) ks))) = distinct
     (filter (\<lambda>k. concept_rows df now s c k \<noteq> []) ks)"
proof (induction ks)
  case Nil
  show ?case by simp
next
  case (Cons k ks)
  have s: "merge_key ` set (concat (map (concept_rows df now s c) ks))
            = (\<lambda>k. (s, c, k)) ` set (filter (\<lambda>k. concept_rows df now s c k \<noteq> []) ks)"
    by (auto simp: concept_rows_def merge_key_def row_fields image_iff split: if_splits)
  show ?case
  proof (cases "concept_rows df now s c k = []")
    case True
    then show ?thesis using Cons by simp
  next
    case False
    then have e: "map merge_key (concept_rows df now s c k) = [(s, c, k)]"
      by (simp add: concept_rows_def merge_key_def row_fields split: if_splits)
    show ?thesis using False Cons s by (auto simp: e)
  qed
qed

lemma client_rows_distinct_keys: "distinct (map merge_key (client_rows df now s c))"
  unfolding client_rows_eq concept_rows_distinct_keys
  by (rule distinct_filter) (simp add: all_conceptos_def)

lemma gold_rows_distinct_keys:
  assumes "distinct snaps" "distinct clients"
  shows "distinct (map merge_key (gold_rows df now snaps clients))"
  unfolding gold_rows_def
proof (rule distinct_concat_map_key [where g = fst, OF assms(1)])
  fix s assume "s \<in> set snaps"
  show "distinct (map merge_key (concat (map (client_rows df now s) clients)))"
  proof (rule distinct_concat_map_key [where g = "\<lambda>k. fst (snd k)", OF assms(2)])
    fix c assume "c \<in> set clients"
    show "distinct (map merge_key (client_rows df now s c))"
      by (rule client_rows_distinct_keys)
  next
    fix c r assume "c \<in> set clients" "r \<in> set (client_rows df now s c)"
    then show "fst (snd (merge_key r)) = c"
      using client_rows_props(2) by (simp add: merge_key_def)
  qed
next
  fix s r assume "s \<in> set snaps" "r \<in> set (concat (map (client_rows df now s) clients))"
  then show "fst (merge_key r) = s"
    using client_rows_props(1) by (auto simp: merge_key_def)
qed


section \<open>Facts about the snapshot dates and the clients\<close>

lemma months_from_upto: "months_from i j = map month_start [i..j]"
proof (induction i j rule: months_from.induct)
  case (1 i j)
  show ?case
  proof (cases "i \<le> j")
    case True
    then show ?thesis using 1 by (subst months_from.simps) (simp add: upto_rec1)
  next
    case False
    then show ?thesis by (subst months_from.simps) simp
  qed
qed

lemma inj_month_start: "inj_on month_start A"
  by (rule inj_onI) (rule month_start_inj)

lemma months_from_distinct: "distinct (months_from i j)"
  by (simp add: months_from_upto distinct_map inj_month_start)

lemma months_from_set: "set (months_from i j) = month_start ` {i..j}"
  by (simp add: months_from_upto)

lemma unique_aux:
  "distinct seen \<Longrightarrow>
   distinct (foldl (\<lambda>seen x. if x \<in> set seen then seen else seen @ [x]) seen xs)
   \<and> set (foldl (\<lambda>seen x. if x \<in> set seen then seen else seen @ [x]) seen xs)
       = set seen \<union> set xs"
  by (induction xs arbitrary: seen) auto

lemma unique_distinct: "distinct (unique xs)"
  using unique_aux [of "[]" xs] by (simp add: unique_def)


lemma snapshot_dates_cases:
  obtains "valid_dates (map Fecha df) = []" "snapshot_dates df now = Inl Could_not_determine_min_date"
  | i j where "valid_dates (map Fecha df) \<noteq> []" "snapshot_dates df now = Inr (months_from i j)"
  by (cases "valid_dates (map Fecha df)")
    (auto simp: snapshot_dates_def Let_def date_range_def)

lemma snapshot_dates_distinct:
  assumes "snapshot_dates df now = Inr snaps"
  shows "distinct snaps"
  using assms months_from_distinct by (cases df now rule: snapshot_dates_cases) auto

lemma snapshot_dates_month_start:
  assumes "snapshot_dates df now = Inr snaps" "s \<in> set snaps"
  shows "\<exists>i. s = month_start i"
  using assms months_from_set by (cases df now rule: snapshot_dates_cases) auto

section \<open>Facts about the variance pass\<close>

lemma concepto_str_inj: "concepto_str a = concepto_str b \<Longrightarrow> a = b"
  by (cases a; cases b) simp_all

lemma with_variance_fields:
  "Fecha_Reporte (with_variance r m) = Fecha_Reporte r"
  "Cliente_Reporte (with_variance r m) = Cliente_Reporte r"
  "Concepto (with_variance r m) = Concepto r"
  "Monto (with_variance r m) = Monto r"
  "Es_Mes_Actual (with_variance r m) = Es_Mes_Actual r"
  "Numero_Facturas (with_variance r m) = Numero_Facturas r"
  "Lista_Facturas (with_variance r m) = Lista_Facturas r"
  "Variacion_Mes_Anterior (with_variance r m) = Monto r - m"
  by (simp_all add: with_variance_def)

lemma with_variance_truncate: "gold_row.truncate (with_variance r m) = r"
  by (simp add: with_variance_def gold_row.truncate_def)

text \<open>
  When no two rows of \<open>df_prev\<close> have the same key, the left join keeps every row
  once, with the amount of its one match or with 0.
\<close>

lemma prev_row_match:
  fixes r :: gold_row
  shows "(case prev_row p of (f, c, k, m) \<Rightarrow> (f, c, k) = merge_key r)
     \<longleftrightarrow> (Cliente_Reporte p = Cliente_Reporte r \<and> Concepto p = Concepto r
          \<and> add_months (Fecha_Reporte p) 1 = Fecha_Reporte r)"
  by (auto simp: prev_row_def merge_key_def)

lemma merge_left_matches:
  fixes r :: gold_row
  shows "filter (\<lambda>(f, c, k, m). (f, c, k) = merge_key r) (map prev_row rows)
     = map prev_row (filter (\<lambda>p. Cliente_Reporte p = Cliente_Reporte r \<and> Concepto p = Concepto r
          \<and> add_months (Fecha_Reporte p) 1 = Fecha_Reporte r) rows)"
  by (simp add: filter_map comp_def prev_row_match)

lemma distinct_filter_eq_length:
  assumes "distinct xs"
  shows "length (filter (\<lambda>k. k = a) xs) \<le> 1"
  using assms
proof (induction xs)
  case Nil
  show ?case by simp
next
  case (Cons x xs)
  show ?case
  proof (cases "x = a")
    case True
    then have "a \<notin> set xs" using Cons.prems by simp
    then have "filter (\<lambda>k. k = a) xs = []" by (auto simp: filter_empty_conv)
    then show ?thesis by simp
  next
    case False
    then show ?thesis using Cons by simp
  qed
qed

lemma at_most_one_match:
  fixes r :: gold_row
  assumes "distinct (map shifted_key rows)"
  shows "length (filter (\<lambda>p. Cliente_Reporte p = Cliente_Reporte r \<and> Concepto p = Concepto r
          \<and> add_months (Fecha_Reporte p) 1 = Fecha_Reporte r) rows) \<le> 1"
proof -
  have "filter (\<lambda>p. Cliente_Reporte p = Cliente_Reporte r \<and> Concepto p = Concepto r
          \<and> add_months (Fecha_Reporte p) 1 = Fecha_Reporte r) rows
        = filter (\<lambda>p. shifted_key p = merge_key r) rows"
    by (intro filter_cong refl) (auto simp: shifted_key_def merge_key_def)
  also have "length \<dots> = length (filter (\<lambda>k. k = merge_key r) (map shifted_key rows))"
    by (simp add: filter_map comp_def)
  also have "\<dots> \<le> 1"
    using assms by (rule distinct_filter_eq_length)
  finally show ?thesis .
qed

lemma merge_left_single:
  assumes "\<And>r. r \<in> set xs \<Longrightarrow> length (filter (\<lambda>p. Cliente_Reporte p = Cliente_Reporte r
              \<and> Concepto p = Concepto r \<and> add_months (Fecha_Reporte p) 1 = Fecha_Reporte r) rows) \<le> 1"
  shows "merge_left xs (map prev_row rows) = map (\<lambda>r. with_variance r (prior_amount rows r)) xs"
proof -
  have "(case filter (\<lambda>(f, c, k, m). (f, c, k) = merge_key r) (map prev_row rows) of
           [] \<Rightarrow> [with_variance r 0]
         | ms \<Rightarrow> map (\<lambda>(f, c, k, m). with_variance r m) ms)
        = [with_variance r (prior_amount rows r)]" if "r \<in> set xs" for r
  proof -
    let ?L = "filter (\<lambda>p. Cliente_Reporte p = Cliente_Reporte r
              \<and> Concepto p = Concepto r \<and> add_months (Fecha_Reporte p) 1 = Fecha_Reporte r) rows"
    have l: "length ?L \<le> 1" using assms that by simp
    show ?thesis
    proof (cases ?L)
      case Nil
      then show ?thesis by (simp add: merge_left_matches prior_amount_def)
    next
      case (Cons p ps)
      then have "ps = []" using l by simp
      then show ?thesis using Cons
        by (simp add: merge_left_matches prior_amount_def prev_row_def)
    qed
  qed
  then have "map (\<lambda>r. case filter (\<lambda>(f, c, k, m). (f, c, k) = merge_key r) (map prev_row rows) of
           [] \<Rightarrow> [with_variance r 0]
         | ms \<Rightarrow> map (\<lambda>(f, c, k, m). with_variance r m) ms) xs
        = map (\<lambda>r. [with_variance r (prior_amount rows r)]) xs"
    by (intro map_cong refl)
  then have "merge_left xs (map prev_row rows)
               = concat (map (\<lambda>r. [with_variance r (prior_amount rows r)]) xs)"
    unfolding merge_left_def by (rule arg_cong)
  also have "\<dots> = map (\<lambda>r. with_variance r (prior_amount rows r)) xs"
    by (induction xs) simp_all
  finally show ?thesis .
qed

lemma prior_amount_sort:
  fixes r :: gold_row
  assumes "length (filter (\<lambda>p. Cliente_Reporte p = Cliente_Reporte r
              \<and> Concepto p = Concepto r \<and> add_months (Fecha_Reporte p) 1 = Fecha_Reporte r) rows) \<le> 1"
  shows "prior_amount (sort_key f rows) r = prior_amount rows r"
proof -
  let ?Q = "\<lambda>p. Cliente_Reporte p = Cliente_Reporte r
              \<and> Concepto p = Concepto r \<and> add_months (Fecha_Reporte p) 1 = Fecha_Reporte r"
  have "filter ?Q (sort_key f rows) = sort_key f (filter ?Q rows)"
    by (rule filter_sort)
  also have "\<dots> = filter ?Q rows"
  proof (cases "filter ?Q rows")
    case Nil
    then show ?thesis by simp
  next
    case (Cons p ps)
    then have "ps = []" using assms by simp
    then show ?thesis using Cons by simp
  qed
  finally show ?thesis by (simp add: prior_amount_def)
qed

lemma shifted_key_distinct:
  assumes "distinct (map merge_key rows)"
    and "\<And>r. r \<in> set rows \<Longrightarrow> \<exists>i. Fecha_Reporte r = month_start i"
  shows "distinct (map shifted_key rows)"
proof -
  have d: "distinct rows" and i: "inj_on merge_key (set rows)"
    using assms(1) by (simp_all add: distinct_map)
  have "inj_on shifted_key (set rows)"
  proof (rule inj_onI)
    fix r r' assume r: "r \<in> set rows" "r' \<in> set rows" "shifted_key r = shifted_key r'"
    from assms(2) r obtain a b where ab: "Fecha_Reporte r = month_start a"
      "Fecha_Reporte r' = month_start b" by blast
    from r(3) have "month_start (a + 1) = month_start (b + 1)"
      by (simp add: shifted_key_def ab add_months_month_start)
    then have "a = b" using month_start_inj by fastforce
    then have "merge_key r = merge_key r'"
      using r(3) ab by (simp add: shifted_key_def merge_key_def)
    then show "r = r'" using i r by (simp add: inj_on_def)
  qed
  then show ?thesis using d by (simp add: distinct_map)
qed

lemma variance_pass_eq:
  assumes "distinct (map merge_key rows)"
    and "\<And>r. r \<in> set rows \<Longrightarrow> \<exists>i. Fecha_Reporte r = month_start i"
  shows "variance_pass rows
           = map (\<lambda>r. with_variance r (prior_amount rows r)) (sort_key sort_by rows)"
proof -
  have s: "distinct (map shifted_key rows)" by (rule shifted_key_distinct [OF assms])
  have one: "length (filter (\<lambda>p. Cliente_Reporte p = Cliente_Reporte r
              \<and> Concepto p = Concepto r \<and> add_months (Fecha_Reporte p) 1 = Fecha_Reporte r) rows) \<le> 1"
    for r :: gold_row
    by (rule at_most_one_match [OF s])
  have one': "length (filter (\<lambda>p. Cliente_Reporte p = Cliente_Reporte r
              \<and> Concepto p = Concepto r \<and> add_months (Fecha_Reporte p) 1 = Fecha_Reporte r)
              (sort_key sort_by rows)) \<le> 1"
    for r :: gold_row
    using one [of r] by (simp add: filter_sort)
  have "variance_pass rows = map (\<lambda>r. with_variance r (prior_amount (sort_key sort_by rows) r))
          (sort_key sort_by rows)"
    unfolding variance_pass_def Let_def by (rule merge_left_single) (rule one')
  also have "\<dots> = map (\<lambda>r. with_variance r (prior_amount rows r)) (sort_key sort_by rows)"
    by (simp add: prior_amount_sort [OF one])
  finally show ?thesis .
qed

lemma gold_layer_eq:
  assumes "snapshot_dates df now = Inr snaps"
  shows "gold_layer df now =
           Inr (map (\<lambda>r. with_variance r
                     (prior_amount (gold_rows df now snaps (unique (map Cliente df))) r))
                  (sort_key sort_by (gold_rows df now snaps (unique (map Cliente df)))))"
proof -
  let ?rows = "gold_rows df now snaps (unique (map Cliente df))"
  have d: "distinct (map merge_key ?rows)"
    by (rule gold_rows_distinct_keys [OF snapshot_dates_distinct [OF assms] unique_distinct])
  have m: "\<exists>i. Fecha_Reporte r = month_start i" if "r \<in> set ?rows" for r
    using gold_rows_props(1) [OF that] snapshot_dates_month_start [OF assms] by simp
  have "variance_pass ?rows = map (\<lambda>r. with_variance r (prior_amount ?rows r))
          (sort_key sort_by ?rows)"
    by (rule variance_pass_eq [OF d m])
  then show ?thesis
    by (cases "?rows = []") (simp_all add: gold_layer_def assms Let_def)
qed

lemma gold_layer_abort:
  assumes "snapshot_dates df now = Inl e"
  shows "gold_layer df now = Inl e"
  by (simp add: gold_layer_def assms)

section \<open>The properties\<close>




lemma valid_dates_none:
  assumes "\<forall>i \<in> set df. Fecha i = None"
  shows "valid_dates (map Fecha df) = []"
  using assms by (induction df) simp_all

text \<open>
  C8. When no invoice of the ledger has a valid date, the run stops before it builds
  the snapshot dates: there is no gold layer, and the worksheet is left as it was.
\<close>

theorem C8_no_valid_date_aborts:
  assumes "\<forall>i \<in> set df. Fecha i = None"
  shows "snapshot_dates df now = Inl Could_not_determine_min_date
    \<and> gold_layer df now = Inl Could_not_determine_min_date
    \<and> main df now worksheet = worksheet"
proof -
  have s: "snapshot_dates df now = Inl Could_not_determine_min_date"
    by (simp add: snapshot_dates_def valid_dates_none [OF assms])
  then show ?thesis by (simp add: gold_layer_abort main_def)
qed

theorem C8_no_valid_date_aborts_witness:
  "map Fecha undated_ledger = [None]
   \<and> gold_layer undated_ledger (mk_date 2024 4 15) = Inl Could_not_determine_min_date
   \<and> main undated_ledger (mk_date 2024 4 15) None = None"
proof -
  have m: "map Fecha undated_ledger = [None]" by (simp add: undated_ledger_def)
  have h: "\<forall>i \<in> set undated_ledger. Fecha i = None" by (simp add: undated_ledger_def)
  from C8_no_valid_date_aborts [OF h, of "mk_date 2024 4 15" None] m show ?thesis by simp
qed

lemma bucket_contributes:
  "bucket_sum b (process_invoice s i acc) =
     bucket_sum b acc + (if overdue_unpaid s i \<and> bucket_of (months_overdue s i) = b
                         then Total i else 0)"
  "bucket_list b (process_invoice s i acc) =
     bucket_list b acc @ (if overdue_unpaid s i \<and> bucket_of (months_overdue s i) = b
                          then [Num i] else [])"
  by (cases b; simp add: process_invoice_sums process_invoice_lists bucket_of_def not_less)+

text \<open>
  C1, as amended. An invoice with a date that is unpaid as of the snapshot is counted
  in exactly one of the four aging buckets when it is dated before the snapshot
  (\<open>days_overdue > 0\<close>): the bucket that the left-closed bounds 3, 6 and 12 give for
  its overdue months; the other three are left as they were. When it is dated on the
  snapshot or after it, it is counted in none.
\<close>

theorem C1_one_bucket_when_overdue:
  assumes "Fecha i = Some d" "is_unpaid s (Fecha_de_cobro i)"
  shows "(0 < days_between s d \<longrightarrow>
            counted_in (bucket_of (months_of_days (days_between s d))) i acc
              (process_invoice s i acc)
            \<and> (\<forall>b. b \<noteq> bucket_of (months_of_days (days_between s d)) \<longrightarrow>
                  untouched b acc (process_invoice s i acc))
            \<and> (\<exists>!b. counted_in b i acc (process_invoice s i acc)))
       \<and> (days_between s d \<le> 0 \<longrightarrow> (\<forall>b. untouched b acc (process_invoice s i acc)))"
proof -
  have m: "months_overdue s i = months_of_days (days_between s d)"
    using assms(1) by (simp add: months_overdue_def)
  have o: "overdue_unpaid s i \<longleftrightarrow> 0 < days_between s d"
    using assms by (simp add: overdue_unpaid_def)
  let ?b = "bucket_of (months_of_days (days_between s d))"
  let ?acc' = "process_invoice s i acc"
  have late: "\<forall>b. untouched b acc ?acc'" if "days_between s d \<le> 0"
    using that by (simp add: untouched_def bucket_contributes o)
  have one: "counted_in ?b i acc ?acc'" if "0 < days_between s d"
    using that by (simp add: counted_in_def bucket_contributes o m)
  have rest: "untouched b acc ?acc'" if "0 < days_between s d" "b \<noteq> ?b" for b
    using that by (simp add: untouched_def bucket_contributes o m)
  have uniq: "b = ?b" if "0 < days_between s d" "counted_in b i acc ?acc'" for b
  proof (rule ccontr)
    assume "b \<noteq> ?b"
    then have "bucket_list b ?acc' = bucket_list b acc"
      using rest [OF that(1)] by (simp add: untouched_def)
    moreover have "bucket_list b ?acc' = bucket_list b acc @ [Num i]"
      using that(2) by (simp add: counted_in_def)
    ultimately show False by simp
  qed
  have ex1: "\<exists>!b. counted_in b i acc ?acc'" if "0 < days_between s d"
    using one [OF that] uniq [OF that] by blast
  show ?thesis using late one rest ex1 by blast
qed

theorem C1_one_bucket_when_overdue_witness:
  "Fecha (acme_invoice None 100) = Some (mk_date 2024 1 10)
   \<and> is_unpaid (mk_date 2024 5 1) (Fecha_de_cobro (acme_invoice None 100))
   \<and> days_between (mk_date 2024 5 1) (mk_date 2024 1 10) = 112
   \<and> bucket_of (months_of_days 112) = Bucket_3_6
   \<and> counted_in Bucket_3_6 (acme_invoice None 100) init_accumulators
        (process_invoice (mk_date 2024 5 1) (acme_invoice None 100) init_accumulators)
   \<and> untouched Bucket_0_3 init_accumulators
        (process_invoice (mk_date 2024 5 1) (acme_invoice None 100) init_accumulators)"
proof -
  have f: "Fecha (acme_invoice None 100) = Some (mk_date 2024 1 10)"
    by (simp add: acme_invoice_def)
  have u: "is_unpaid (mk_date 2024 5 1) (Fecha_de_cobro (acme_invoice None 100))"
    by (simp add: acme_invoice_def is_unpaid_def)
  have d: "days_between (mk_date 2024 5 1) (mk_date 2024 1 10) = 112" by code_simp
  have b: "bucket_of (months_of_days 112) = Bucket_3_6" by code_simp
  from C1_one_bucket_when_overdue [OF f u, of init_accumulators] f u d b
  show ?thesis by simp
qed

text \<open>
  The claim as it is written fails for an unpaid invoice dated on the snapshot itself:
  its overdue months are 0, which the claim puts in the first bucket, and the loop
  counts it in no bucket; the run of that ledger writes the billing row only.
\<close>

theorem C1_counterexample:
  "Fecha february_invoice = Some (mk_date 2024 2 1)
   \<and> is_unpaid (mk_date 2024 2 1) (Fecha_de_cobro february_invoice)
   \<and> months_of_days (days_between (mk_date 2024 2 1) (mk_date 2024 2 1)) = 0
   \<and> snapshot_dates [february_invoice] (mk_date 2024 2 15) = Inr [mk_date 2024 2 1]
   \<and> \<not> (\<exists>b. counted_in b february_invoice init_accumulators
              (process_invoice (mk_date 2024 2 1) february_invoice init_accumulators))
   \<and> gold_layer [february_invoice] (mk_date 2024 2 15)
       = Inr [with_variance (row (mk_date 2024 2 1) ''Acme'' Facturacion_Mensual 100 True
                [''F2'']) 0]"
proof -
  have p: "process_invoice (mk_date 2024 2 1) february_invoice init_accumulators
             = init_accumulators"
    by code_simp
  have n: "\<not> counted_in b february_invoice init_accumulators init_accumulators" for b
    by (simp add: counted_in_def)
  have 1: "Fecha february_invoice = Some (mk_date 2024 2 1)"
    by (simp add: february_invoice_def)
  have 2: "is_unpaid (mk_date 2024 2 1) (Fecha_de_cobro february_invoice)"
    by (simp add: february_invoice_def is_unpaid_def)
  have 3: "months_of_days (days_between (mk_date 2024 2 1) (mk_date 2024 2 1)) = 0"
    by (simp add: months_of_days_def days_between_def)
  have 4: "snapshot_dates [february_invoice] (mk_date 2024 2 15) = Inr [mk_date 2024 2 1]"
    by code_simp
  have 5: "gold_layer [february_invoice] (mk_date 2024 2 15)
       = Inr [with_variance (row (mk_date 2024 2 1) ''Acme'' Facturacion_Mensual 100 True
                [''F2'']) 0]"
    by code_simp
  show ?thesis using 1 2 3 4 5 n by (simp only: p simp_thms)
qed

















lemma gold_rows_keys:
  assumes "snapshot_dates df now = Inr snaps"
  shows "distinct (map merge_key (gold_rows df now snaps (unique (map Cliente df))))"
    and "\<And>r. r \<in> set (gold_rows df now snaps (unique (map Cliente df)))
           \<Longrightarrow> \<exists>i. Fecha_Reporte r = month_start i"
    and "distinct (map shifted_key (gold_rows df now snaps (unique (map Cliente df))))"
proof -
  let ?rows = "gold_rows df now snaps (unique (map Cliente df))"
  show d: "distinct (map merge_key ?rows)"
    by (rule gold_rows_distinct_keys [OF snapshot_dates_distinct [OF assms] unique_distinct])
  show m: "\<exists>i. Fecha_Reporte r = month_start i" if "r \<in> set ?rows" for r
    using gold_rows_props(1) [OF that] snapshot_dates_month_start [OF assms] by simp
  show "distinct (map shifted_key ?rows)" by (rule shifted_key_distinct [OF d m])
qed





lemma sort_by_inj:
  assumes "snapshot_dates df now = Inr snaps"
  shows "inj_on sort_by (set (gold_rows df now snaps (unique (map Cliente df))))"
proof (rule inj_onI)
  let ?rows = "gold_rows df now snaps (unique (map Cliente df))"
  note k = gold_rows_keys [OF assms]
  fix r r' assume r: "r \<in> set ?rows" "r' \<in> set ?rows" "sort_by r = sort_by r'"
  from k(2) [OF r(1)] k(2) [OF r(2)] obtain i j where
    ij: "Fecha_Reporte r = month_start i" "Fecha_Reporte r' = month_start j" by blast
  have o: "ordinal (month_start i) = ordinal (month_start j)"
    using r(3) ij by (simp add: sort_by_def)
  have "i = j"
  proof (rule ccontr)
    assume "i \<noteq> j"
    then consider "i < j" | "j < i" by linarith
    then show False
      using ordinal_month_start_strict [of i j] ordinal_month_start_strict [of j i] o
      by cases simp_all
  qed
  moreover have "Concepto r = Concepto r'"
    using r(3) concepto_str_inj by (simp add: sort_by_def)
  ultimately have "merge_key r = merge_key r'"
    using r(3) ij by (simp add: sort_by_def merge_key_def)
  moreover have "inj_on merge_key (set ?rows)" using k(1) by (simp add: distinct_map)
  ultimately show "r = r'" using r(1,2) by (simp add: inj_on_def)
qed

text \<open>
  C10. In every run the report date, client and concept of a row identify it among
  the rows that the snapshots produce. So in the variance pass every row meets at most
  one row of the month-shifted copy, and the left join neither adds nor removes a row:
  the export has as many rows as were produced, and without its variance column it is
  the sorted list of them.
\<close>

theorem C10_unique_key:
  assumes "snapshot_dates df now = Inr snaps" "gold_layer df now = Inr out"
  shows "distinct (map merge_key (gold_rows df now snaps (unique (map Cliente df))))
    \<and> (\<forall>r \<in> set (gold_rows df now snaps (unique (map Cliente df))).
          length (filter (\<lambda>(f, c, k, m). (f, c, k) = merge_key r)
                    (map prev_row (sort_key sort_by
                       (gold_rows df now snaps (unique (map Cliente df)))))) \<le> 1)
    \<and> length out = length (gold_rows df now snaps (unique (map Cliente df)))
    \<and> map gold_row.truncate out
        = sort_key sort_by (gold_rows df now snaps (unique (map Cliente df)))
    \<and> distinct (map (\<lambda>x. (Fecha_Reporte x, Cliente_Reporte x, Concepto x)) out)"
proof -
  let ?rows = "gold_rows df now snaps (unique (map Cliente df))"
  let ?wv = "\<lambda>r. with_variance r (prior_amount ?rows r)"
  have out: "out = map ?wv (sort_key sort_by ?rows)"
    using gold_layer_eq [OF assms(1)] assms(2) by simp
  note k = gold_rows_keys [OF assms(1)]
  have one: "length (filter (\<lambda>(f, c, k, m). (f, c, k) = merge_key r)
                    (map prev_row (sort_key sort_by ?rows))) \<le> 1" for r :: gold_row
  proof -
    have "length (filter (\<lambda>p. Cliente_Reporte p = Cliente_Reporte r \<and> Concepto p = Concepto r
              \<and> add_months (Fecha_Reporte p) 1 = Fecha_Reporte r) ?rows) \<le> 1"
      by (rule at_most_one_match [OF k(3)])
    then show ?thesis by (simp add: merge_left_matches filter_sort)
  qed
  have t: "map gold_row.truncate out = sort_key sort_by ?rows"
    by (simp add: out comp_def with_variance_truncate)
  have "map (\<lambda>x. (Fecha_Reporte x, Cliente_Reporte x, Concepto x)) out
          = map merge_key (sort_key sort_by ?rows)"
    by (simp add: out comp_def with_variance_fields merge_key_def)
  moreover have "distinct (map merge_key (sort_key sort_by ?rows))"
    using k(1) by (simp add: distinct_map)
  ultimately have d: "distinct (map (\<lambda>x. (Fecha_Reporte x, Cliente_Reporte x, Concepto x)) out)"
    by simp
  have l: "length out = length ?rows" by (simp add: out)
  show ?thesis using k(1) one l t d by blast
qed

theorem C10_unique_key_witness:
  "snapshot_dates [acme_invoice None 100] (mk_date 2024 5 20)
     = Inr [mk_date 2024 1 1, mk_date 2024 2 1, mk_date 2024 3 1, mk_date 2024 4 1,
            mk_date 2024 5 1]
   \<and> gold_layer [acme_invoice None 100] (mk_date 2024 5 20)
     = Inr [acme_row 5 Alerta_Paso_3_Meses True 0, acme_row 2 Deuda_0_3_Meses False 0,
            acme_row 3 Deuda_0_3_Meses False 100, acme_row 4 Deuda_0_3_Meses False 100,
            acme_row 5 Deuda_3_6_Meses True 0, acme_row 1 Facturacion_Mensual False 0]
   \<and> length (gold_rows [acme_invoice None 100] (mk_date 2024 5 20)
        [mk_date 2024 1 1, mk_date 2024 2 1, mk_date 2024 3 1, mk_date 2024 4 1,
         mk_date 2024 5 1] (unique (map Cliente [acme_invoice None 100]))) = 6
   \<and> distinct (map merge_key (gold_rows [acme_invoice None 100] (mk_date 2024 5 20)
        [mk_date 2024 1 1, mk_date 2024 2 1, mk_date 2024 3 1, mk_date 2024 4 1,
         mk_date 2024 5 1] (unique (map Cliente [acme_invoice None 100]))))"
proof -
  let ?out = "[acme_row 5 Alerta_Paso_3_Meses True 0, acme_row 2 Deuda_0_3_Meses False 0,
            acme_row 3 Deuda_0_3_Meses False 100, acme_row 4 Deuda_0_3_Meses False 100,
            acme_row 5 Deuda_3_6_Meses True 0, acme_row 1 Facturacion_Mensual False 0]"
  have s: "snapshot_dates [acme_invoice None 100] (mk_date 2024 5 20)
     = Inr [mk_date 2024 1 1, mk_date 2024 2 1, mk_date 2024 3 1, mk_date 2024 4 1,
            mk_date 2024 5 1]"
    by code_simp
  have g: "gold_layer [acme_invoice None 100] (mk_date 2024 5 20) = Inr ?out" by code_simp
  note t = C10_unique_key [OF s g]
  have l: "length (gold_rows [acme_invoice None 100] (mk_date 2024 5 20)
        [mk_date 2024 1 1, mk_date 2024 2 1, mk_date 2024 3 1, mk_date 2024 4 1,
         mk_date 2024 5 1] (unique (map Cliente [acme_invoice None 100]))) = 6"
    using t by simp
  show ?thesis using s g l t by (intro conjI) simp_all
qed

lemma main_idempotent: "main df now (main df now worksheet) = main df now worksheet"
  by (simp add: main_def split: sum.splits)

lemma sorted_arrangement_unique:
  fixes f :: "'a \<Rightarrow> 'k::linorder"
  assumes "distinct xs" "inj_on f (set xs)" "set ys = set xs" "length ys = length xs"
    "sorted (map f ys)"
  shows "ys = sort_key f xs"
proof -
  have dy: "distinct ys"
    using assms(1,3,4) by (metis card_distinct distinct_card)
  have "map f ys = map f (sort_key f xs)"
  proof (rule sorted_distinct_set_unique)
    show "sorted (map f ys)" by (rule assms(5))
    show "distinct (map f ys)" using dy assms(2,3) by (simp add: distinct_map)
    show "sorted (map f (sort_key f xs))" by (rule sorted_sort_key)
    show "distinct (map f (sort_key f xs))" using assms(1,2) by (simp add: distinct_map)
    show "set (map f ys) = set (map f (sort_key f xs))" using assms(3) by simp
  qed
  moreover have "inj_on f (set ys \<union> set (sort_key f xs))" using assms(2,3) by simp
  ultimately show ?thesis by (simp add: inj_on_map_eq_map)
qed

text \<open>
  C9. With the ledger and \<open>now\<close> fixed, a second run writes what the first run
  wrote: applied to the worksheet that a run has left, the run leaves the same
  worksheet, and whenever it exports rows the worksheet holds the gold layer of that
  ledger and \<open>now\<close>, whatever it held before. The order of the rows does not depend on
  how the sort treats rows with equal keys: any arrangement of the produced rows in key
  order is the one the run exports.
\<close>

theorem C9_deterministic:
  shows "main df now (main df now worksheet) = main df now worksheet
    \<and> (\<forall>out. gold_layer df now = Inr out \<and> out \<noteq> [] \<longrightarrow>
          main df now worksheet = Some out \<and> main df now worksheet' = Some out)
    \<and> (\<forall>snaps rows'. snapshot_dates df now = Inr snaps
          \<and> set rows' = set (gold_rows df now snaps (unique (map Cliente df)))
          \<and> length rows' = length (gold_rows df now snaps (unique (map Cliente df)))
          \<and> sorted (map sort_by rows')
          \<longrightarrow> rows' = sort_key sort_by (gold_rows df now snaps (unique (map Cliente df))))"
proof -
  have a: "main df now worksheet = Some out \<and> main df now worksheet' = Some out"
    if "gold_layer df now = Inr out \<and> out \<noteq> []" for out
    using that by (simp add: main_def)
  have b: "rows' = sort_key sort_by (gold_rows df now snaps (unique (map Cliente df)))"
    if h: "snapshot_dates df now = Inr snaps
          \<and> set rows' = set (gold_rows df now snaps (unique (map Cliente df)))
          \<and> length rows' = length (gold_rows df now snaps (unique (map Cliente df)))
          \<and> sorted (map sort_by rows')" for snaps rows'
  proof -
    from h have s: "snapshot_dates df now = Inr snaps" by simp
    have "distinct (map merge_key (gold_rows df now snaps (unique (map Cliente df))))"
      by (rule gold_rows_keys(1) [OF s])
    then have d: "distinct (gold_rows df now snaps (unique (map Cliente df)))"
      by (simp add: distinct_map)
    show ?thesis
      using h by (intro sorted_arrangement_unique [OF d sort_by_inj [OF s]]) simp_all
  qed
  show ?thesis using main_idempotent a b by blast
qed


theorem C9_deterministic_witness:
  "gold_layer [acme_invoice None 100] (mk_date 2024 5 20)
     = Inr [acme_row 5 Alerta_Paso_3_Meses True 0, acme_row 2 Deuda_0_3_Meses False 0,
            acme_row 3 Deuda_0_3_Meses False 100, acme_row 4 Deuda_0_3_Meses False 100,
            acme_row 5 Deuda_3_6_Meses True 0, acme_row 1 Facturacion_Mensual False 0]
   \<and> main [acme_invoice None 100] (mk_date 2024 5 20) None
     = Some [acme_row 5 Alerta_Paso_3_Meses True 0, acme_row 2 Deuda_0_3_Meses False 0,
            acme_row 3 Deuda_0_3_Meses False 100, acme_row 4 Deuda_0_3_Meses False 100,
            acme_row 5 Deuda_3_6_Meses True 0, acme_row 1 Facturacion_Mensual False 0]
   \<and> main [acme_invoice None 100] (mk_date 2024 5 20)
        (main [acme_invoice None 100] (mk_date 2024 5 20) None)
     = main [acme_invoice None 100] (mk_date 2024 5 20) None
   \<and> snapshot_dates [acme_invoice None 100] (mk_date 2024 5 20)
     = Inr [mk_date 2024 1 1, mk_date 2024 2 1, mk_date 2024 3 1, mk_date 2024 4 1,
            mk_date 2024 5 1]
   \<and> gold_rows [acme_invoice None 100] (mk_date 2024 5 20)
        [mk_date 2024 1 1, mk_date 2024 2 1, mk_date 2024 3 1, mk_date 2024 4 1,
         mk_date 2024 5 1] (unique (map Cliente [acme_invoice None 100]))
     = map gold_row.truncate
         [acme_row 1 Facturacion_Mensual False 0, acme_row 2 Deuda_0_3_Meses False 0,
          acme_row 3 Deuda_0_3_Meses False 100, acme_row 4 Deuda_0_3_Meses False 100,
          acme_row 5 Deuda_3_6_Meses True 0, acme_row 5 Alerta_Paso_3_Meses True 0]
   \<and> sorted (map sort_by (map gold_row.truncate
         [acme_row 5 Alerta_Paso_3_Meses True 0, acme_row 2 Deuda_0_3_Meses False 0,
          acme_row 3 Deuda_0_3_Meses False 100, acme_row 4 Deuda_0_3_Meses False 100,
          acme_row 5 Deuda_3_6_Meses True 0, acme_row 1 Facturacion_Mensual False 0]))
   \<and> map gold_row.truncate
         [acme_row 5 Alerta_Paso_3_Meses True 0, acme_row 2 Deuda_0_3_Meses False 0,
          acme_row 3 Deuda_0_3_Meses False 100, acme_row 4 Deuda_0_3_Meses False 100,
          acme_row 5 Deuda_3_6_Meses True 0, acme_row 1 Facturacion_Mensual False 0]
     = sort_key sort_by (gold_rows [acme_invoice None 100] (mk_date 2024 5 20)
        [mk_date 2024 1 1, mk_date 2024 2 1, mk_date 2024 3 1, mk_date 2024 4 1,
         mk_date 2024 5 1] (unique (map Cliente [acme_invoice None 100])))"
proof -
  let ?df = "[acme_invoice None 100]"
  let ?now = "mk_date 2024 5 20"
  let ?snaps = "[mk_date 2024 1 1, mk_date 2024 2 1, mk_date 2024 3 1, mk_date 2024 4 1,
            mk_date 2024 5 1]"
  let ?out = "[acme_row 5 Alerta_Paso_3_Meses True 0, acme_row 2 Deuda_0_3_Meses False 0,
            acme_row 3 Deuda_0_3_Meses False 100, acme_row 4 Deuda_0_3_Meses False 100,
            acme_row 5 Deuda_3_6_Meses True 0, acme_row 1 Facturacion_Mensual False 0]"
  let ?made = "[acme_row 1 Facturacion_Mensual False 0, acme_row 2 Deuda_0_3_Meses False 0,
          acme_row 3 Deuda_0_3_Meses False 100, acme_row 4 Deuda_0_3_Meses False 100,
          acme_row 5 Deuda_3_6_Meses True 0, acme_row 5 Alerta_Paso_3_Meses True 0]"
  let ?rows = "gold_rows ?df ?now ?snaps (unique (map Cliente ?df))"
  let ?rows' = "map gold_row.truncate ?out"
  have s: "snapshot_dates ?df ?now = Inr ?snaps" by code_simp
  have g: "gold_layer ?df ?now = Inr ?out" by code_simp
  have ne: "?out \<noteq> []" by simp
  have r: "?rows = map gold_row.truncate ?made" by code_simp
  have st: "set ?rows' = set ?rows" unfolding r by auto
  have ln: "length ?rows' = length ?rows" unfolding r by simp
  have so: "sorted (map sort_by ?rows')" by code_simp
  note t = C9_deterministic [of ?df ?now None None]
  have m: "main ?df ?now None = Some ?out" using t g ne by blast
  have i: "main ?df ?now (main ?df ?now None) = main ?df ?now None" using t by blast
  have a: "?rows' = sort_key sort_by ?rows" using t s st ln so by blast
  show ?thesis using g m i s r so a by (intro conjI)
qed












end
